theory Spec2Isabelle
  imports Main "HOL-Library.Word"
begin

section \<open>Thread.hpp: a thread and its saved context\<close>

text \<open>
  The place inside \<open>create_thread\<close> (ThreadsCollectionManager.hpp) at which a thread
  is: the statement it runs next, together with the value of the local variable
  \<open>new_id\<close> once that has been read. \<open>AtRead\<close> is
  \<open>int new_id = *available_ids.begin()\<close>, \<open>AtErase\<close> is
  \<open>available_ids.erase(available_ids.begin())\<close>, \<open>AtStore\<close> is
  \<open>threads[new_id] = Thread(new_id, stack_size, entryPoint)\<close> and \<open>AtPush\<close> is
  \<open>readyQueue.push_back(new_id)\<close> with the \<open>return new_id\<close> after it.
\<close>

datatype create_thread_pc = AtRead | AtErase int | AtStore int | AtPush int

text \<open>
  A \<open>sigjmp_buf\<close> holds a stack pointer, a program counter and a saved signal mask.
  The library only ever calls \<open>sigsetjmp\<close> inside \<open>switch_threads\<close>, so the saved
  program counter and stack are determined by the function that called
  \<open>switch_threads\<close> (or \<open>switch_threads_mid_quantum\<close>): the place where the thread
  goes on when \<open>siglongjmp\<close> returns into it. \<open>EntryPoint\<close> is the context the
  constructor synthesises for a spawned thread, \<open>NoContext\<close> the zeroed buffer
  \<open>env{0}\<close>. The signal handler is entered from whatever code the timer interrupts:
  \<open>InTimeHandler\<close> is the context saved when that was the thread's own code,
  \<open>InCreateThread\<close> the one saved when it was \<open>create_thread\<close>, which runs with the
  signal not blocked. Of the saved mask only the bit of the timer signal SIGVTALRM
  is kept.
  The stack buffer itself is memory and has no counterpart here, and neither has
  the address of the entry function.
\<close>

datatype resume_point =
  NoContext | EntryPoint | InTimeHandler | InBlock | InMutexLock | InTerminate
  | InCreateThread create_thread_pc

record sigjmp_buf =
  jb_pc :: resume_point
  saved_mask :: bool

text \<open>\<open>size_t\<close> on the x86-64 target of \<open>translate_address\<close>: 64 bits, wrapping.\<close>

type_synonym size_t = "64 word"

record Thread =
  id_t :: int
  env :: sigjmp_buf
  quantums :: size_t

text \<open>
  \<open>Thread(id, stack_size, entry_point)\<close>: \<open>quantums(0)\<close>, the program counter of
  \<open>env\<close> set to the entry point and its saved mask emptied by \<open>sigemptyset\<close>.
\<close>

definition Thread_ctor :: "int \<Rightarrow> Thread" where
  "Thread_ctor i = \<lparr>id_t = i, env = \<lparr>jb_pc = EntryPoint, saved_mask = False\<rparr>, quantums = 0\<rparr>"

text \<open>\<open>Thread()\<close>, the main thread: \<open>id(0), env{0}, stack(nullptr), quantums(1)\<close>.\<close>

definition Thread_default :: Thread where
  "Thread_default = \<lparr>id_t = 0, env = \<lparr>jb_pc = NoContext, saved_mask = False\<rparr>, quantums = 1\<rparr>"


section \<open>ThreadsCollectionManager.hpp\<close>

abbreviation (input) FAILURE :: int where "FAILURE \<equiv> - 1"
abbreviation (input) SUCCESS :: int where "SUCCESS \<equiv> 0"

text \<open>
  \<open>std::map<int, Thread>\<close> is a partial map, \<open>std::list<int>\<close> a list, \<open>std::set<int>\<close>
  a set whose \<open>begin()\<close> is its least element. Thread ids are C \<open>int\<close>s that are only
  compared and stored, never computed with, so they are modelled as \<open>int\<close>.
\<close>

record ThreadsCollectionManager =
  curr_thread_id :: int
  threads :: "int \<rightharpoonup> Thread"
  readyQueue :: "int list"
  waiting_fot_mutex :: "int set"
  available_ids :: "int set"
  blocked :: "int set"
  stack_size :: nat

text \<open>The constructor's loop \<open>for (int i = 1; i < max_threads; i++) available_ids.insert(i)\<close>.\<close>

function fill_available_ids :: "int \<Rightarrow> int \<Rightarrow> int set \<Rightarrow> int set" where
  "fill_available_ids i max_threads A =
     (if i < max_threads then fill_available_ids (i + 1) max_threads (insert i A) else A)"
  by pat_completeness auto
termination
  by (relation "measure (\<lambda>(i, max_threads, A). nat (max_threads - i))") auto

declare fill_available_ids.simps [simp del]

definition ThreadsCollectionManager_ctor :: "int \<Rightarrow> nat \<Rightarrow> ThreadsCollectionManager" where
  "ThreadsCollectionManager_ctor max_threads ssize =
     \<lparr>curr_thread_id = 0,
      threads = [0 \<mapsto> Thread_default],
      readyQueue = [],
      waiting_fot_mutex = {},
      available_ids = fill_available_ids 1 max_threads {},
      blocked = {},
      stack_size = ssize\<rparr>"

text \<open>
  \<open>create_thread\<close> returns the new id (or \<open>FAILURE\<close>) together with the updated
  collection. Running out of memory (\<open>std::bad_alloc\<close>) ends the process and is
  outside the model.
\<close>

definition create_thread :: "ThreadsCollectionManager \<Rightarrow> int \<times> ThreadsCollectionManager" where
  "create_thread m =
     (if available_ids m = {} then (FAILURE, m)
      else
        let new_id = Min (available_ids m) in
        (new_id,
         m\<lparr>available_ids := available_ids m - {new_id},
           threads := (threads m)(new_id \<mapsto> Thread_ctor new_id),
           readyQueue := readyQueue m @ [new_id]\<rparr>))"

definition contains :: "ThreadsCollectionManager \<Rightarrow> int \<Rightarrow> bool" where
  "contains m i = (threads m i \<noteq> None)"

definition terminate :: "int \<Rightarrow> ThreadsCollectionManager \<Rightarrow> ThreadsCollectionManager" where
  "terminate i m =
     m\<lparr>threads := (threads m)(i := None),
       readyQueue := removeAll i (readyQueue m),
       waiting_fot_mutex := waiting_fot_mutex m - {i},
       blocked := blocked m - {i},
       available_ids := insert i (available_ids m)\<rparr>"

definition set_as_ready :: "int \<Rightarrow> ThreadsCollectionManager \<Rightarrow> ThreadsCollectionManager" where
  "set_as_ready i m =
     (if curr_thread_id m \<noteq> i \<and> i \<notin> set (readyQueue m)
         \<and> i \<notin> waiting_fot_mutex m \<and> i \<notin> blocked m
      then m\<lparr>readyQueue := readyQueue m @ [i]\<rparr>
      else m)"

definition get_curr_id :: "ThreadsCollectionManager \<Rightarrow> int" where
  "get_curr_id m = curr_thread_id m"

definition wait_for_mutex :: "int \<Rightarrow> ThreadsCollectionManager \<Rightarrow> ThreadsCollectionManager" where
  "wait_for_mutex i m = m\<lparr>waiting_fot_mutex := insert i (waiting_fot_mutex m)\<rparr>"

definition advance_mutex_line :: "ThreadsCollectionManager \<Rightarrow> ThreadsCollectionManager" where
  "advance_mutex_line m =
     (if waiting_fot_mutex m = {} then m
      else
        let waiting_not_blocked = waiting_fot_mutex m - blocked m in
        if waiting_not_blocked \<noteq> {} then
          let i = Min waiting_not_blocked in
          m\<lparr>readyQueue := readyQueue m @ [i],
            waiting_fot_mutex := waiting_fot_mutex m - {i}\<rparr>
        else m\<lparr>waiting_fot_mutex := waiting_fot_mutex m - {Min (waiting_fot_mutex m)}\<rparr>)"

definition resume :: "int \<Rightarrow> ThreadsCollectionManager \<Rightarrow> int \<times> ThreadsCollectionManager" where
  "resume i m =
     (if \<not> contains m i then (FAILURE, m)
      else (SUCCESS, set_as_ready i (m\<lparr>blocked := blocked m - {i}\<rparr>)))"

text \<open>
  \<open>readyQueue.front()\<close> and \<open>pop_front()\<close> on an empty list are undefined
  behaviour: \<open>None\<close>.
\<close>

definition set_next_thread_as_running ::
  "ThreadsCollectionManager \<Rightarrow> ThreadsCollectionManager option" where
  "set_next_thread_as_running m =
     (case readyQueue m of
        [] \<Rightarrow> None
      | id_next # rest \<Rightarrow> Some (m\<lparr>readyQueue := rest, curr_thread_id := id_next\<rparr>))"

text \<open>
  \<open>get_thread(id)\<close> is \<open>threads[id]\<close>, a reference: \<open>std::map::operator[]\<close> inserts a
  default-constructed \<open>Thread()\<close> when the key is absent. \<open>get_thread\<close> is the record
  the reference denotes, \<open>set_thread\<close> a write through it (after which the key is
  present in either case). Every read of the source is of a key that is present or
  has just been written.
\<close>

definition get_thread :: "int \<Rightarrow> ThreadsCollectionManager \<Rightarrow> Thread" where
  "get_thread i m = (case threads m i of None \<Rightarrow> Thread_default | Some t \<Rightarrow> t)"

definition set_thread :: "int \<Rightarrow> Thread \<Rightarrow> ThreadsCollectionManager \<Rightarrow> ThreadsCollectionManager" where
  "set_thread i t m = m\<lparr>threads := (threads m)(i \<mapsto> t)\<rparr>"

definition get_current_thread :: "ThreadsCollectionManager \<Rightarrow> Thread" where
  "get_current_thread m = get_thread (curr_thread_id m) m"

definition is_someone_waiting :: "ThreadsCollectionManager \<Rightarrow> bool" where
  "is_someone_waiting m = (readyQueue m \<noteq> [])"

definition block :: "int \<Rightarrow> ThreadsCollectionManager \<Rightarrow> ThreadsCollectionManager" where
  "block i m = m\<lparr>blocked := insert i (blocked m), readyQueue := removeAll i (readyQueue m)\<rparr>"


section \<open>uthreads.cpp: the static state\<close>

record Mutex =
  locked :: bool
  locking_thread :: int

datatype sig_how = SIG_BLOCK | SIG_UNBLOCK

text \<open>
  The static variables, together with the part of the process state the library acts
  on: whether SIGVTALRM is in the process signal mask, and the \<open>sigprocmask\<close> calls
  made so far, oldest first. The timer itself (\<open>timer\<close>, \<open>setitimer\<close>) is real time
  and is represented only by the \<open>Tick\<close> event below. Diagnostics on \<open>cerr\<close> are not
  recorded. The system calls are taken to succeed; their failure branches end the
  process.
\<close>

record lib_state =
  total_quantums :: size_t
  threadsCollectionManager :: ThreadsCollectionManager
  mutex :: Mutex
  sigvtalrm_blocked :: bool
  sigprocmask_calls :: "sig_how list"

text \<open>
  How a call leaves its caller: it returns a value; or it ends in \<open>siglongjmp\<close>, so
  that control is in another thread's saved context (\<open>Jumped\<close>); or it ends the
  process with \<open>std::exit\<close>; or it runs into undefined behaviour.
\<close>

datatype 'r outcome =
  Return 'r lib_state | Jumped lib_state | Exit int lib_state | UB

definition on_manager ::
  "(ThreadsCollectionManager \<Rightarrow> ThreadsCollectionManager) \<Rightarrow> lib_state \<Rightarrow> lib_state" where
  "on_manager f s = s\<lparr>threadsCollectionManager := f (threadsCollectionManager s)\<rparr>"

text \<open>
  The state after static initialisation: \<open>total_quantums\<close> zero-initialised, the
  manager constructed with \<open>MAX_THREAD_NUM\<close> and \<open>STACK_SIZE\<close> (both defined in
  \<open>uthreads.h\<close>, hence parameters here), the mutex unlocked with
  \<open>locking_thread = -1\<close>.
\<close>

definition static_state :: "int \<Rightarrow> nat \<Rightarrow> lib_state" where
  "static_state MAX_THREAD_NUM STACK_SIZE =
     \<lparr>total_quantums = 0,
      threadsCollectionManager = ThreadsCollectionManager_ctor MAX_THREAD_NUM STACK_SIZE,
      mutex = \<lparr>locked = False, locking_thread = - 1\<rparr>,
      sigvtalrm_blocked = False,
      sigprocmask_calls = []\<rparr>"


section \<open>uthreads.cpp: helper functions\<close>

definition sigprocmask :: "sig_how \<Rightarrow> lib_state \<Rightarrow> lib_state" where
  "sigprocmask how s =
     s\<lparr>sigvtalrm_blocked := (how = SIG_BLOCK),
       sigprocmask_calls := sigprocmask_calls s @ [how]\<rparr>"

definition mask_time_signal :: "sig_how \<Rightarrow> lib_state \<Rightarrow> lib_state" where
  "mask_time_signal how s = sigprocmask how s"

text \<open>\<open>setitimer\<close> re-arms the interval timer, which has no component in the state.\<close>

definition set_timer :: "lib_state \<Rightarrow> lib_state" where
  "set_timer s = s"

text \<open>
  \<open>sigsetjmp(get_current_thread().env, 1)\<close> on its direct return (value 0): the
  context of the caller and the current signal mask are written into the record of
  the current thread.
\<close>

definition sigsetjmp_current :: "resume_point \<Rightarrow> lib_state \<Rightarrow> lib_state" where
  "sigsetjmp_current caller s =
     (let m = threadsCollectionManager s; c = curr_thread_id m in
      s\<lparr>threadsCollectionManager :=
          set_thread c ((get_thread c m)\<lparr>env := \<lparr>jb_pc = caller, saved_mask = sigvtalrm_blocked s\<rparr>\<rparr>) m\<rparr>)"

text \<open>\<open>get_current_thread().quantums++\<close>\<close>

definition incr_current_quantums :: "lib_state \<Rightarrow> lib_state" where
  "incr_current_quantums s =
     (let m = threadsCollectionManager s; c = curr_thread_id m in
      s\<lparr>threadsCollectionManager :=
          set_thread c ((get_thread c m)\<lparr>quantums := quantums (get_thread c m) + 1\<rparr>) m\<rparr>)"

text \<open>
  \<open>siglongjmp(get_current_thread().env, 1)\<close> restores the signal mask saved in the
  buffer and does not return.
\<close>

definition siglongjmp_current :: "lib_state \<Rightarrow> 'r outcome" where
  "siglongjmp_current s =
     Jumped (s\<lparr>sigvtalrm_blocked :=
                saved_mask (env (get_current_thread (threadsCollectionManager s)))\<rparr>)"

text \<open>
  \<open>switch_threads\<close> up to its \<open>siglongjmp\<close>. The branch \<open>ret_val == 1\<close> is taken when
  the saved context is jumped to later, and belongs to \<open>resume_thread\<close> below.
  \<open>caller\<close> stands for the return address and stack that \<open>sigsetjmp\<close> captures.
\<close>

definition switch_threads ::
  "(lib_state \<Rightarrow> lib_state) \<Rightarrow> resume_point \<Rightarrow> lib_state \<Rightarrow> 'r outcome" where
  "switch_threads handle_curr_thread caller s =
     (let s1 = s\<lparr>total_quantums := total_quantums s + 1\<rparr>;
          s2 = sigsetjmp_current caller s1
      in case set_next_thread_as_running (threadsCollectionManager s2) of
           None \<Rightarrow> UB
         | Some m \<Rightarrow>
             siglongjmp_current
               (incr_current_quantums
                 (handle_curr_thread (s2\<lparr>threadsCollectionManager := m\<rparr>))))"

definition switch_threads_mid_quantum ::
  "(lib_state \<Rightarrow> lib_state) \<Rightarrow> resume_point \<Rightarrow> lib_state \<Rightarrow> 'r outcome" where
  "switch_threads_mid_quantum handle_curr_thread caller s =
     switch_threads handle_curr_thread caller (set_timer s)"

definition time_sig_handler :: "lib_state \<Rightarrow> unit outcome" where
  "time_sig_handler s =
     (if \<not> is_someone_waiting (threadsCollectionManager s) then
        Return () (incr_current_quantums (s\<lparr>total_quantums := total_quantums s + 1\<rparr>))
      else
        let curr_id = get_curr_id (threadsCollectionManager s) in
        switch_threads (on_manager (set_as_ready curr_id)) InTimeHandler s)"


section \<open>uthreads.cpp: the public functions\<close>

definition uthread_init :: "int \<Rightarrow> lib_state \<Rightarrow> int outcome" where
  "uthread_init quantum_usecs s =
     (if quantum_usecs \<le> 0 then Return FAILURE s
      else Return SUCCESS (set_timer (s\<lparr>total_quantums := total_quantums s + 1\<rparr>)))"

definition uthread_spawn :: "lib_state \<Rightarrow> int outcome" where
  "uthread_spawn s =
     (case create_thread (threadsCollectionManager s) of
        (i, m) \<Rightarrow> Return i (s\<lparr>threadsCollectionManager := m\<rparr>))"

text \<open>The closure \<open>delete_thread\<close> of \<open>uthread_terminate\<close>.\<close>

definition delete_thread :: "int \<Rightarrow> lib_state \<Rightarrow> lib_state" where
  "delete_thread tid s =
     (let s1 = on_manager (terminate tid) s in
      if locking_thread (mutex s1) = tid then
        on_manager advance_mutex_line (s1\<lparr>mutex := \<lparr>locked = False, locking_thread = - 1\<rparr>\<rparr>)
      else s1)"

text \<open>
  When \<open>tid\<close> is the running thread, \<open>switch_threads_mid_quantum\<close> does not return
  here; what follows it in the source (\<open>delete_thread()\<close> again, the unmasking, the
  return) would run only if the saved context were jumped to, see \<open>resume_thread\<close>.
\<close>

definition uthread_terminate :: "int \<Rightarrow> lib_state \<Rightarrow> int outcome" where
  "uthread_terminate tid s =
     (let s1 = mask_time_signal SIG_BLOCK s in
      if tid = 0 then Exit 0 s1
      else if \<not> contains (threadsCollectionManager s1) tid then
        Return FAILURE (sigprocmask SIG_UNBLOCK s1)
      else if tid = get_curr_id (threadsCollectionManager s1) then
        switch_threads_mid_quantum (delete_thread tid) InTerminate s1
      else Return SUCCESS (mask_time_signal SIG_UNBLOCK (delete_thread tid s1)))"

definition uthread_block :: "int \<Rightarrow> lib_state \<Rightarrow> int outcome" where
  "uthread_block tid s =
     (let s1 = mask_time_signal SIG_BLOCK s in
      if tid = 0 \<or> \<not> contains (threadsCollectionManager s1) tid then
        Return FAILURE (mask_time_signal SIG_UNBLOCK s1)
      else if get_curr_id (threadsCollectionManager s1) = tid then
        switch_threads_mid_quantum (on_manager (block tid)) InBlock s1
      else Return SUCCESS (mask_time_signal SIG_UNBLOCK (on_manager (block tid) s1)))"

definition uthread_resume :: "int \<Rightarrow> lib_state \<Rightarrow> int outcome" where
  "uthread_resume tid s =
     (let s1 = mask_time_signal SIG_BLOCK s in
      case resume tid (threadsCollectionManager s1) of
        (success, m) \<Rightarrow>
          Return success (mask_time_signal SIG_UNBLOCK (s1\<lparr>threadsCollectionManager := m\<rparr>)))"

text \<open>
  One evaluation of the loop \<open>while (mutex.locked) { ... }\<close> of \<open>uthread_mutex_lock\<close>
  and, when the mutex is free, the rest of the function. When the mutex is taken the
  body switches away; the thread is back at the loop condition when its context is
  jumped to (\<open>resume_thread\<close>).
\<close>

definition mutex_lock_loop :: "lib_state \<Rightarrow> int outcome" where
  "mutex_lock_loop s =
     (if locked (mutex s) then
        let i = get_curr_id (threadsCollectionManager s) in
        switch_threads_mid_quantum (on_manager (wait_for_mutex i)) InMutexLock s
      else
        Return SUCCESS
          (mask_time_signal SIG_UNBLOCK
            (s\<lparr>mutex := \<lparr>locked = True,
                         locking_thread = get_curr_id (threadsCollectionManager s)\<rparr>\<rparr>)))"

definition uthread_mutex_lock :: "lib_state \<Rightarrow> int outcome" where
  "uthread_mutex_lock s =
     (let s1 = mask_time_signal SIG_BLOCK s in
      if locking_thread (mutex s1) = get_curr_id (threadsCollectionManager s1) then
        Return FAILURE (mask_time_signal SIG_UNBLOCK s1)
      else mutex_lock_loop s1)"

definition uthread_mutex_unlock :: "lib_state \<Rightarrow> int outcome" where
  "uthread_mutex_unlock s =
     (let s1 = mask_time_signal SIG_BLOCK s in
      if \<not> locked (mutex s1)
         \<or> locking_thread (mutex s1) \<noteq> get_curr_id (threadsCollectionManager s1) then
        Return FAILURE (mask_time_signal SIG_UNBLOCK s1)
      else
        Return SUCCESS
          (mask_time_signal SIG_UNBLOCK
            (on_manager advance_mutex_line
              (s1\<lparr>mutex := \<lparr>locked = False, locking_thread = - 1\<rparr>\<rparr>))))"

text \<open>The conversion of a \<open>size_t\<close> to the \<open>int\<close> that is returned: the low 32 bits, signed.\<close>

definition int_of_size_t :: "size_t \<Rightarrow> int" where
  "int_of_size_t n = sint (ucast n :: 32 word)"

definition uthread_get_tid :: "lib_state \<Rightarrow> int outcome" where
  "uthread_get_tid s = Return (get_curr_id (threadsCollectionManager s)) s"

definition uthread_get_total_quantums :: "lib_state \<Rightarrow> int outcome" where
  "uthread_get_total_quantums s = Return (int_of_size_t (total_quantums s)) s"

definition uthread_get_quantums :: "int \<Rightarrow> lib_state \<Rightarrow> int outcome" where
  "uthread_get_quantums tid s =
     (let s1 = mask_time_signal SIG_BLOCK s in
      if \<not> contains (threadsCollectionManager s1) tid then Return FAILURE s1
      else
        Return (int_of_size_t (quantums (get_thread tid (threadsCollectionManager s1))))
          (mask_time_signal SIG_UNBLOCK s1))"


section \<open>Context switches between the threads\<close>

text \<open>
  What happens after \<open>siglongjmp\<close>, until the thread that is now running is back in
  its own code with the library call (or the signal handler) it was suspended in
  finished. The signal mask has been restored from the buffer already.
  \<^item> A spawned thread that never ran starts at its entry point.
  \<^item> A thread preempted by the timer: \<open>sigsetjmp\<close> returns 1, \<open>switch_threads\<close> and
    \<open>time_sig_handler\<close> return, and the return from the handler restores the mask
    of the moment the signal was delivered, in which SIGVTALRM was not blocked.
  \<^item> A thread that blocked itself: \<open>uthread_block\<close> unmasks and returns.
  \<^item> A thread waiting in \<open>uthread_mutex_lock\<close> is back at the loop condition, and
    switches away again when the mutex is still locked.
  \<^item> A thread that terminated itself would run the rest of \<open>uthread_terminate\<close>.
  \<^item> A zeroed buffer is no context to jump to.
  \<^item> A thread that was preempted inside \<open>create_thread\<close> is not back in its own code
    when the handler returns; this case is left to \<open>resume_thread_in\<close> below, and
    \<open>resume_thread\<close> has no result for it.
  The recursion ends because every further switch takes an id off the ready queue.
\<close>

function resume_thread :: "lib_state \<Rightarrow> lib_state option" where
  "resume_thread s =
     (case jb_pc (env (get_current_thread (threadsCollectionManager s))) of
        NoContext \<Rightarrow> None
      | EntryPoint \<Rightarrow> Some s
      | InTimeHandler \<Rightarrow> Some (s\<lparr>sigvtalrm_blocked := False\<rparr>)
      | InBlock \<Rightarrow> Some (mask_time_signal SIG_UNBLOCK s)
      | InMutexLock \<Rightarrow>
          (case mutex_lock_loop s of
             Return r s' \<Rightarrow> Some s'
           | Jumped s' \<Rightarrow> resume_thread s'
           | Exit c s' \<Rightarrow> None
           | UB \<Rightarrow> None)
      | InTerminate \<Rightarrow>
          Some (mask_time_signal SIG_UNBLOCK
                 (delete_thread (get_curr_id (threadsCollectionManager s)) s))
      | InCreateThread p \<Rightarrow> None)"
  by pat_completeness auto
termination
  by (relation "measure (\<lambda>s. length (readyQueue (threadsCollectionManager s)))")
     (auto simp: mutex_lock_loop_def switch_threads_mid_quantum_def switch_threads_def
        siglongjmp_current_def incr_current_quantums_def on_manager_def wait_for_mutex_def
        set_next_thread_as_running_def sigsetjmp_current_def set_thread_def set_timer_def Let_def
        split: if_splits option.splits list.splits)

declare resume_thread.simps [simp del]


section \<open>Executions in which every call runs as a whole\<close>

text \<open>
  The running thread calls the public functions one after the other; between two
  calls, while SIGVTALRM is not blocked, the timer may fire. \<open>uthread_init\<close> is
  called once, before everything else, and is therefore not among the calls. The
  entry function of a thread is taken not to return.

  This section has the executions in which every call is one step, so that the timer
  fires only while the running thread is in its own code. For the functions that
  block the signal, and for the two that only read one variable, these are all the
  executions there are. \<open>uthread_spawn\<close> changes the collection without blocking
  the signal: the executions in which the timer fires inside it are those of the
  next section, which has the ones of this section among them (lemma
  \<open>fine_run_library_Whole\<close>). Accordingly \<open>resume_thread\<close> has no result for a
  context that was saved inside \<open>create_thread\<close>, which no execution of this
  section saves.
\<close>

datatype api_call =
  Spawn | Terminate int | Block int | Resume int | MutexLock | MutexUnlock
  | GetTid | GetTotalQuantums | GetQuantums int

fun call :: "api_call \<Rightarrow> lib_state \<Rightarrow> int outcome" where
  "call Spawn s = uthread_spawn s"
| "call (Terminate tid) s = uthread_terminate tid s"
| "call (Block tid) s = uthread_block tid s"
| "call (Resume tid) s = uthread_resume tid s"
| "call MutexLock s = uthread_mutex_lock s"
| "call MutexUnlock s = uthread_mutex_unlock s"
| "call GetTid s = uthread_get_tid s"
| "call GetTotalQuantums s = uthread_get_total_quantums s"
| "call (GetQuantums tid) s = uthread_get_quantums tid s"

datatype event = Call api_call | Tick

text \<open>
  The next state in which the running thread is in its own code, if there is one:
  none after \<open>exit\<close> or undefined behaviour.
\<close>

definition settle :: "'r outcome \<Rightarrow> lib_state option" where
  "settle out =
     (case out of
        Return r s' \<Rightarrow> Some s'
      | Jumped s' \<Rightarrow> resume_thread s'
      | Exit c s' \<Rightarrow> None
      | UB \<Rightarrow> None)"

text \<open>
  Delivery of SIGVTALRM: only while the signal is not blocked; it is blocked while
  the handler runs (\<open>time_handler\<close> has no \<open>SA_NODEFER\<close>), and the mask of before is
  restored when the handler returns.
\<close>

definition deliver_tick :: "lib_state \<Rightarrow> lib_state option" where
  "deliver_tick s =
     (if sigvtalrm_blocked s then None
      else
        case time_sig_handler (s\<lparr>sigvtalrm_blocked := True\<rparr>) of
          Return u s' \<Rightarrow> Some (s'\<lparr>sigvtalrm_blocked := False\<rparr>)
        | Jumped s' \<Rightarrow> resume_thread s'
        | Exit c s' \<Rightarrow> None
        | UB \<Rightarrow> None)"

fun step :: "event \<Rightarrow> lib_state \<Rightarrow> lib_state option" where
  "step (Call c) s = settle (call c s)"
| "step Tick s = deliver_tick s"

fun run :: "lib_state \<Rightarrow> event list \<Rightarrow> lib_state option" where
  "run s [] = Some s"
| "run s (e # es) = (case step e s of None \<Rightarrow> None | Some s' \<Rightarrow> run s' es)"

text \<open>A whole execution: static initialisation, a successful \<open>uthread_init\<close>, the events.\<close>

definition run_library :: "int \<Rightarrow> nat \<Rightarrow> int \<Rightarrow> event list \<Rightarrow> lib_state option" where
  "run_library MAX_THREAD_NUM STACK_SIZE quantum_usecs es =
     (case uthread_init quantum_usecs (static_state MAX_THREAD_NUM STACK_SIZE) of
        Return r s0 \<Rightarrow> if r = SUCCESS then run s0 es else None
      | Jumped s' \<Rightarrow> None
      | Exit c s' \<Rightarrow> None
      | UB \<Rightarrow> None)"


section \<open>Executions in which the timer fires inside \<open>uthread_spawn\<close>\<close>

text \<open>
  \<open>uthread_spawn\<close> and \<open>create_thread\<close> never block SIGVTALRM, so the handler also
  runs between two statements of \<open>create_thread\<close>. The executions of this section
  have these interleavings too. The running thread is either in its own code or
  inside \<open>create_thread\<close>, about to run the statement that its \<open>create_thread_pc\<close>
  names. (A signal in the middle of one container operation, between the
  instructions of a \<open>std::map\<close> insertion say, is not represented: the handler then
  works on containers that are in no state C++ defines.)
\<close>

datatype activity = UserCode | CreateThread create_thread_pc

text \<open>
  One statement of \<open>create_thread\<close> after the emptiness test, and where the thread
  is afterwards. \<open>*available_ids.begin()\<close> and \<open>available_ids.erase(available_ids.begin())\<close>
  on an empty set are undefined behaviour: \<open>None\<close>. The erased id is the least one of
  the set at that moment, whatever \<open>new_id\<close> is.
\<close>

definition create_thread_statement ::
  "create_thread_pc \<Rightarrow> ThreadsCollectionManager \<Rightarrow> (ThreadsCollectionManager \<times> activity) option" where
  "create_thread_statement pc m =
     (case pc of
        AtRead \<Rightarrow>
          if available_ids m = {} then None
          else Some (m, CreateThread (AtErase (Min (available_ids m))))
      | AtErase new_id \<Rightarrow>
          if available_ids m = {} then None
          else Some (m\<lparr>available_ids := available_ids m - {Min (available_ids m)}\<rparr>,
                     CreateThread (AtStore new_id))
      | AtStore new_id \<Rightarrow>
          Some (m\<lparr>threads := (threads m)(new_id \<mapsto> Thread_ctor new_id)\<rparr>,
                CreateThread (AtPush new_id))
      | AtPush new_id \<Rightarrow> Some (m\<lparr>readyQueue := readyQueue m @ [new_id]\<rparr>, UserCode))"

text \<open>
  The next piece of \<open>uthread_spawn\<close>. From its own code the thread calls
  \<open>uthread_spawn\<close>, and \<open>create_thread\<close> tests \<open>available_ids.empty()\<close>: the call
  returns \<open>FAILURE\<close> at once, or the thread is in front of the first statement. Inside
  \<open>create_thread\<close> the thread runs one statement; after the last one
  \<open>create_thread\<close> and \<open>uthread_spawn\<close> return \<open>new_id\<close>.
\<close>

definition spawn_step :: "activity \<Rightarrow> lib_state \<Rightarrow> (lib_state \<times> activity) option" where
  "spawn_step a s =
     (case a of
        UserCode \<Rightarrow>
          Some (s, if available_ids (threadsCollectionManager s) = {} then UserCode
                   else CreateThread AtRead)
      | CreateThread pc \<Rightarrow>
          (case create_thread_statement pc (threadsCollectionManager s) of
             None \<Rightarrow> None
           | Some (m, a') \<Rightarrow> Some (s\<lparr>threadsCollectionManager := m\<rparr>, a')))"

text \<open>
  \<open>time_sig_handler\<close> when the signal interrupts a thread in activity \<open>a\<close>: the
  context that \<open>sigsetjmp\<close> captures leads back, through the return of the handler,
  into the code that was interrupted.
\<close>

definition interrupted_context :: "activity \<Rightarrow> resume_point" where
  "interrupted_context a =
     (case a of UserCode \<Rightarrow> InTimeHandler | CreateThread pc \<Rightarrow> InCreateThread pc)"

definition time_sig_handler_in :: "activity \<Rightarrow> lib_state \<Rightarrow> unit outcome" where
  "time_sig_handler_in a s =
     (if \<not> is_someone_waiting (threadsCollectionManager s) then
        Return () (incr_current_quantums (s\<lparr>total_quantums := total_quantums s + 1\<rparr>))
      else
        let curr_id = get_curr_id (threadsCollectionManager s) in
        switch_threads (on_manager (set_as_ready curr_id)) (interrupted_context a) s)"

text \<open>
  \<open>resume_thread\<close> with the activity in which the thread that is now running finds
  itself: a thread that was preempted inside \<open>create_thread\<close> is back there once the
  handler has returned, every other thread is in its own code.
\<close>

function resume_thread_in :: "lib_state \<Rightarrow> (lib_state \<times> activity) option" where
  "resume_thread_in s =
     (case jb_pc (env (get_current_thread (threadsCollectionManager s))) of
        NoContext \<Rightarrow> None
      | EntryPoint \<Rightarrow> Some (s, UserCode)
      | InTimeHandler \<Rightarrow> Some (s\<lparr>sigvtalrm_blocked := False\<rparr>, UserCode)
      | InBlock \<Rightarrow> Some (mask_time_signal SIG_UNBLOCK s, UserCode)
      | InMutexLock \<Rightarrow>
          (case mutex_lock_loop s of
             Return r s' \<Rightarrow> Some (s', UserCode)
           | Jumped s' \<Rightarrow> resume_thread_in s'
           | Exit c s' \<Rightarrow> None
           | UB \<Rightarrow> None)
      | InTerminate \<Rightarrow>
          Some (mask_time_signal SIG_UNBLOCK
                 (delete_thread (get_curr_id (threadsCollectionManager s)) s), UserCode)
      | InCreateThread pc \<Rightarrow> Some (s\<lparr>sigvtalrm_blocked := False\<rparr>, CreateThread pc))"
  by pat_completeness auto
termination
  by (relation "measure (\<lambda>s. length (readyQueue (threadsCollectionManager s)))")
     (auto simp: mutex_lock_loop_def switch_threads_mid_quantum_def switch_threads_def
        siglongjmp_current_def incr_current_quantums_def on_manager_def wait_for_mutex_def
        set_next_thread_as_running_def sigsetjmp_current_def set_thread_def set_timer_def Let_def
        split: if_splits option.splits list.splits)

declare resume_thread_in.simps [simp del]

definition settle_in :: "'r outcome \<Rightarrow> (lib_state \<times> activity) option" where
  "settle_in out =
     (case out of
        Return r s' \<Rightarrow> Some (s', UserCode)
      | Jumped s' \<Rightarrow> resume_thread_in s'
      | Exit c s' \<Rightarrow> None
      | UB \<Rightarrow> None)"

definition deliver_tick_in :: "activity \<Rightarrow> lib_state \<Rightarrow> (lib_state \<times> activity) option" where
  "deliver_tick_in a s =
     (if sigvtalrm_blocked s then None
      else
        case time_sig_handler_in a (s\<lparr>sigvtalrm_blocked := True\<rparr>) of
          Return u s' \<Rightarrow> Some (s'\<lparr>sigvtalrm_blocked := False\<rparr>, a)
        | Jumped s' \<Rightarrow> resume_thread_in s'
        | Exit c s' \<Rightarrow> None
        | UB \<Rightarrow> None)"

text \<open>
  The events: a call that runs as a whole, made by a thread that is in its own code
  (for \<open>uthread_spawn\<close> this is the case that no signal arrives during the call); a
  tick, wherever the running thread is; and the next piece of a \<open>uthread_spawn\<close>
  between whose pieces ticks may come.
\<close>

datatype fine_event = Whole event | SpawnStep

fun fine_step :: "fine_event \<Rightarrow> lib_state \<times> activity \<Rightarrow> (lib_state \<times> activity) option" where
  "fine_step (Whole (Call c)) (s, a) = (if a = UserCode then settle_in (call c s) else None)"
| "fine_step (Whole Tick) (s, a) = deliver_tick_in a s"
| "fine_step SpawnStep (s, a) = spawn_step a s"

fun fine_run :: "lib_state \<times> activity \<Rightarrow> fine_event list \<Rightarrow> (lib_state \<times> activity) option" where
  "fine_run sa [] = Some sa"
| "fine_run sa (e # es) = (case fine_step e sa of None \<Rightarrow> None | Some sa' \<Rightarrow> fine_run sa' es)"

definition fine_run_library ::
  "int \<Rightarrow> nat \<Rightarrow> int \<Rightarrow> fine_event list \<Rightarrow> (lib_state \<times> activity) option" where
  "fine_run_library MAX_THREAD_NUM STACK_SIZE quantum_usecs es =
     (case uthread_init quantum_usecs (static_state MAX_THREAD_NUM STACK_SIZE) of
        Return r s0 \<Rightarrow> if r = SUCCESS then fine_run (s0, UserCode) es else None
      | Jumped s' \<Rightarrow> None
      | Exit c s' \<Rightarrow> None
      | UB \<Rightarrow> None)"


section \<open>Invariants, measures and example states\<close>

text \<open>
  The notions that the statements and proofs below are about: the shape of the
  collection, the pieces of a context switch, the sum of the quantums, threads that
  have not run, and concrete states (with \<open>MAX_THREAD_NUM = 4\<close> and
  \<open>STACK_SIZE = 4096\<close> unless said otherwise).
\<close>

text \<open>The ids of the live threads: the keys of \<open>threads\<close>.\<close>

definition live :: "ThreadsCollectionManager \<Rightarrow> int set" where
  "live m = dom (threads m)"

text \<open>
  The shape of the collection whenever the running thread is in its own code. The
  blocked set and the set of threads waiting for the mutex may overlap; apart from
  that every live thread is in exactly one place. No live thread has the context of
  a thread that terminated itself.
\<close>

definition wf_manager :: "ThreadsCollectionManager \<Rightarrow> bool" where
  "wf_manager m \<longleftrightarrow>
     finite (live m) \<and> finite (available_ids m)
     \<and> distinct (readyQueue m)
     \<and> curr_thread_id m \<notin> set (readyQueue m)
     \<and> curr_thread_id m \<notin> blocked m
     \<and> curr_thread_id m \<notin> waiting_fot_mutex m
     \<and> (\<forall>i \<in> set (readyQueue m). i \<notin> blocked m \<and> i \<notin> waiting_fot_mutex m)
     \<and> live m = insert (curr_thread_id m) (set (readyQueue m) \<union> blocked m \<union> waiting_fot_mutex m)
     \<and> (\<forall>i \<in> available_ids m. i \<notin> live m)
     \<and> (\<forall>i \<in> live m. jb_pc (env (get_thread i m)) \<noteq> InTerminate)"

definition wf_state :: "lib_state \<Rightarrow> bool" where
  "wf_state s = wf_manager (threadsCollectionManager s)"

text \<open>
  \<open>switch_threads\<close> in pieces: \<open>switched\<close> is the state in which the post-switch
  action runs (the counter incremented, the context saved, the next thread taken
  off the queue), \<open>landed\<close> the effect of \<open>siglongjmp\<close>.
\<close>

definition switched :: "resume_point \<Rightarrow> int \<Rightarrow> int list \<Rightarrow> lib_state \<Rightarrow> lib_state" where
  "switched caller x rest s =
     (let s2 = sigsetjmp_current caller (s\<lparr>total_quantums := total_quantums s + 1\<rparr>) in
      s2\<lparr>threadsCollectionManager :=
           (threadsCollectionManager s2)\<lparr>readyQueue := rest, curr_thread_id := x\<rparr>\<rparr>)"

definition landed :: "lib_state \<Rightarrow> lib_state" where
  "landed s = s\<lparr>sigvtalrm_blocked :=
                saved_mask (env (get_current_thread (threadsCollectionManager s)))\<rparr>"

text \<open>
  The collection while the post-switch action runs: the thread \<open>old\<close> that is being
  switched away from is live, with its context saved, but in none of the queue and
  the two sets.
\<close>

definition wf_mid :: "int \<Rightarrow> resume_point \<Rightarrow> ThreadsCollectionManager \<Rightarrow> bool" where
  "wf_mid old caller m \<longleftrightarrow>
     finite (live m) \<and> finite (available_ids m)
     \<and> distinct (readyQueue m)
     \<and> old \<noteq> curr_thread_id m
     \<and> curr_thread_id m \<notin> set (readyQueue m)
     \<and> curr_thread_id m \<notin> blocked m
     \<and> curr_thread_id m \<notin> waiting_fot_mutex m
     \<and> old \<notin> set (readyQueue m)
     \<and> old \<notin> blocked m
     \<and> old \<notin> waiting_fot_mutex m
     \<and> (\<forall>i \<in> set (readyQueue m). i \<notin> blocked m \<and> i \<notin> waiting_fot_mutex m)
     \<and> live m = insert old (insert (curr_thread_id m)
                   (set (readyQueue m) \<union> blocked m \<union> waiting_fot_mutex m))
     \<and> (\<forall>i \<in> available_ids m. i \<notin> live m)
     \<and> jb_pc (env (get_thread old m)) = caller
     \<and> (\<forall>i \<in> live m. i \<noteq> old \<longrightarrow> jb_pc (env (get_thread i m)) \<noteq> InTerminate)"

text \<open>
  The sum of the quantums counters of the live threads, in \<open>size_t\<close> arithmetic.
\<close>

definition quantum_sum :: "ThreadsCollectionManager \<Rightarrow> size_t" where
  "quantum_sum m = (\<Sum>i \<in> dom (threads m). quantums (get_thread i m))"

definition sum_quantums :: "lib_state \<Rightarrow> size_t" where
  "sum_quantums s = quantum_sum (threadsCollectionManager s)"

text \<open>
  The counter of the thread that an event removes from the collection: only
  \<open>uthread_terminate\<close> of a live thread other than the main thread removes one.
  \<open>retired_in_run\<close> adds these counters up along an execution.
\<close>

fun retired :: "event \<Rightarrow> lib_state \<Rightarrow> size_t" where
  "retired (Call (Terminate tid)) s =
     (if tid \<noteq> 0 \<and> contains (threadsCollectionManager s) tid
      then quantums (get_thread tid (threadsCollectionManager s)) else 0)"
| "retired e s = 0"

fun retired_in_run :: "lib_state \<Rightarrow> event list \<Rightarrow> size_t" where
  "retired_in_run s [] = 0"
| "retired_in_run s (e # es) =
     (case step e s of None \<Rightarrow> 0 | Some s' \<Rightarrow> retired e s + retired_in_run s' es)"

text \<open>The same along an execution in which \<open>uthread_spawn\<close> may come in pieces.\<close>

fun retired_fine :: "fine_event \<Rightarrow> lib_state \<Rightarrow> size_t" where
  "retired_fine (Whole e) s = retired e s"
| "retired_fine SpawnStep s = 0"

fun retired_in_fine_run :: "lib_state \<times> activity \<Rightarrow> fine_event list \<Rightarrow> size_t" where
  "retired_in_fine_run sa [] = 0"
| "retired_in_fine_run sa (e # es) =
     (case fine_step e sa of
        None \<Rightarrow> 0
      | Some sa' \<Rightarrow> retired_fine e (fst sa) + retired_in_fine_run sa' es)"

text \<open>The quantums that are counted in \<open>total_quantums\<close> but in no live thread.\<close>

definition unaccounted :: "lib_state \<Rightarrow> size_t" where
  "unaccounted s = total_quantums s - sum_quantums s"

text \<open>
  A thread that has not run yet: if it is live, its counter is 0 and its context is
  the one the constructor made.
\<close>

definition unscheduled :: "int \<Rightarrow> lib_state \<Rightarrow> bool" where
  "unscheduled tid s \<longleftrightarrow>
     (contains (threadsCollectionManager s) tid \<longrightarrow>
        quantums (get_thread tid (threadsCollectionManager s)) = 0
        \<and> jb_pc (env (get_thread tid (threadsCollectionManager s))) = EntryPoint)"

text \<open>
  An execution in which thread \<open>tid\<close> is never the running thread. A thread that was
  never run is at its entry point, so when \<open>switch_threads\<close> selects it, it is the
  running thread of the next state.
\<close>

fun run_avoiding :: "int \<Rightarrow> lib_state \<Rightarrow> event list \<Rightarrow> lib_state option" where
  "run_avoiding tid s [] = Some s"
| "run_avoiding tid s (e # es) =
     (case step e s of
        None \<Rightarrow> None
      | Some s' \<Rightarrow>
          if get_curr_id (threadsCollectionManager s') = tid then None
          else run_avoiding tid s' es)"

text \<open>
  Right after a jump: either the jump was into \<open>tid\<close>, which then starts at its
  entry point (or has no context at all), or \<open>tid\<close> has still not run.
\<close>

definition pending :: "int \<Rightarrow> lib_state \<Rightarrow> bool" where
  "pending tid s \<longleftrightarrow>
     (if curr_thread_id (threadsCollectionManager s) = tid
      then jb_pc (env (get_current_thread (threadsCollectionManager s))) \<in> {EntryPoint, NoContext}
      else unscheduled tid s)"

text \<open>The same for the executions in which \<open>uthread_spawn\<close> may come in pieces.\<close>

fun fine_run_avoiding ::
  "int \<Rightarrow> lib_state \<times> activity \<Rightarrow> fine_event list \<Rightarrow> (lib_state \<times> activity) option" where
  "fine_run_avoiding tid sa [] = Some sa"
| "fine_run_avoiding tid sa (e # es) =
     (case fine_step e sa of
        None \<Rightarrow> None
      | Some sa' \<Rightarrow>
          if get_curr_id (threadsCollectionManager (fst sa')) = tid then None
          else fine_run_avoiding tid sa' es)"

text \<open>No saved context leads back into \<open>create_thread\<close>.\<close>

definition none_in_create_thread :: "lib_state \<Rightarrow> bool" where
  "none_in_create_thread s \<longleftrightarrow>
     (\<forall>i pc. jb_pc (env (get_thread i (threadsCollectionManager s))) \<noteq> InCreateThread pc)"

text \<open>After \<open>uthread_init\<close>.\<close>

definition started :: lib_state where
  "started =
     \<lparr>total_quantums = 1,
      threadsCollectionManager =
        \<lparr>curr_thread_id = 0,
         threads = [0 \<mapsto> Thread_default],
         readyQueue = [],
         waiting_fot_mutex = {},
         available_ids = {3, 2, 1},
         blocked = {},
         stack_size = 4096\<rparr>,
      mutex = \<lparr>locked = False, locking_thread = - 1\<rparr>,
      sigvtalrm_blocked = False,
      sigprocmask_calls = []\<rparr>"

text \<open>The main thread has spawned thread 1.\<close>

definition one_spawned :: lib_state where
  "one_spawned =
     started\<lparr>threadsCollectionManager :=
       (threadsCollectionManager started)
         \<lparr>threads := [0 \<mapsto> Thread_default, 1 \<mapsto> Thread_ctor 1],
          readyQueue := [1],
          available_ids := {3, 2}\<rparr>\<rparr>"

text \<open>The main thread has taken the mutex.\<close>

definition main_holds :: lib_state where
  "main_holds =
     started\<lparr>mutex := \<lparr>locked = True, locking_thread = 0\<rparr>,
             sigprocmask_calls := [SIG_BLOCK, SIG_UNBLOCK]\<rparr>"

text \<open>Thread 1 runs and has taken the mutex; the main thread is ready.\<close>

definition thread1_holds :: lib_state where
  "thread1_holds =
     \<lparr>total_quantums = 2,
      threadsCollectionManager =
        \<lparr>curr_thread_id = 1,
         threads = [0 \<mapsto> \<lparr>id_t = 0, env = \<lparr>jb_pc = InTimeHandler, saved_mask = True\<rparr>,
                          quantums = 1\<rparr>,
                    1 \<mapsto> \<lparr>id_t = 1, env = \<lparr>jb_pc = EntryPoint, saved_mask = False\<rparr>,
                          quantums = 1\<rparr>],
         readyQueue = [0],
         waiting_fot_mutex = {},
         available_ids = {3, 2},
         blocked = {},
         stack_size = 4096\<rparr>,
      mutex = \<lparr>locked = True, locking_thread = 1\<rparr>,
      sigvtalrm_blocked = False,
      sigprocmask_calls = [SIG_BLOCK, SIG_UNBLOCK]\<rparr>"

text \<open>Thread 1 holds the mutex and is ready; the main thread runs.\<close>

definition main_runs_thread1_holds :: lib_state where
  "main_runs_thread1_holds =
     \<lparr>total_quantums = 3,
      threadsCollectionManager =
        \<lparr>curr_thread_id = 0,
         threads = [0 \<mapsto> \<lparr>id_t = 0, env = \<lparr>jb_pc = InTimeHandler, saved_mask = True\<rparr>,
                          quantums = 2\<rparr>,
                    1 \<mapsto> \<lparr>id_t = 1, env = \<lparr>jb_pc = InTimeHandler, saved_mask = True\<rparr>,
                          quantums = 1\<rparr>],
         readyQueue = [1],
         waiting_fot_mutex = {},
         available_ids = {3, 2},
         blocked = {},
         stack_size = 4096\<rparr>,
      mutex = \<lparr>locked = True, locking_thread = 1\<rparr>,
      sigvtalrm_blocked = False,
      sigprocmask_calls = [SIG_BLOCK, SIG_UNBLOCK]\<rparr>"

text \<open>\<open>MAX_THREAD_NUM = 1\<close>: no id is free.\<close>

definition alone :: lib_state where
  "alone = started\<lparr>threadsCollectionManager :=
             (threadsCollectionManager started)\<lparr>available_ids := {}\<rparr>\<rparr>"

text \<open>The main thread has spawned thread 1 and blocked it.\<close>

definition one_blocked :: lib_state where
  "one_blocked =
     one_spawned\<lparr>threadsCollectionManager :=
                    (threadsCollectionManager one_spawned)\<lparr>readyQueue := [], blocked := {1}\<rparr>,
                  sigprocmask_calls := [SIG_BLOCK, SIG_UNBLOCK]\<rparr>"

text \<open>
  Threads 1 and 2 are spawned; thread 1 runs and takes the mutex; thread 2 runs, asks
  for the mutex and has to wait; the main thread then blocks thread 2.
\<close>

definition blocked_waiter :: lib_state where
  "blocked_waiter =
     \<lparr>total_quantums = 4,
      threadsCollectionManager =
        \<lparr>curr_thread_id = 0,
         threads = [2 \<mapsto> \<lparr>id_t = 2, env = \<lparr>jb_pc = InMutexLock, saved_mask = True\<rparr>,
                          quantums = 1\<rparr>,
                    1 \<mapsto> \<lparr>id_t = 1, env = \<lparr>jb_pc = InTimeHandler, saved_mask = True\<rparr>,
                          quantums = 1\<rparr>,
                    0 \<mapsto> \<lparr>id_t = 0, env = \<lparr>jb_pc = InTimeHandler, saved_mask = True\<rparr>,
                          quantums = 2\<rparr>],
         readyQueue = [1],
         waiting_fot_mutex = {2},
         available_ids = {3},
         blocked = {2},
         stack_size = 4096\<rparr>,
      mutex = \<lparr>locked = True, locking_thread = 1\<rparr>,
      sigvtalrm_blocked = False,
      sigprocmask_calls = [SIG_BLOCK, SIG_UNBLOCK, SIG_BLOCK, SIG_BLOCK, SIG_UNBLOCK]\<rparr>"

text \<open>
  Thread 1 has blocked itself and was resumed by the main thread; the timer has
  fired and \<open>switch_threads\<close> has just jumped into the context of thread 1, which it
  saved inside \<open>uthread_block\<close>.
\<close>

definition back_in_block :: lib_state where
  "back_in_block =
     \<lparr>total_quantums = 4,
      threadsCollectionManager =
        \<lparr>curr_thread_id = 1,
         threads = [0 \<mapsto> \<lparr>id_t = 0, env = \<lparr>jb_pc = InTimeHandler, saved_mask = True\<rparr>,
                          quantums = 2\<rparr>,
                    1 \<mapsto> \<lparr>id_t = 1, env = \<lparr>jb_pc = InBlock, saved_mask = True\<rparr>,
                          quantums = 2\<rparr>],
         readyQueue = [0],
         waiting_fot_mutex = {},
         available_ids = {3, 2},
         blocked = {},
         stack_size = 4096\<rparr>,
      mutex = \<lparr>locked = False, locking_thread = - 1\<rparr>,
      sigvtalrm_blocked = True,
      sigprocmask_calls = [SIG_BLOCK, SIG_BLOCK, SIG_UNBLOCK]\<rparr>"

text \<open>
  Thread 1 holds the mutex and runs; the main thread waits for the mutex; the ready
  queue is empty.
\<close>

definition holder_runs_alone :: lib_state where
  "holder_runs_alone =
     \<lparr>total_quantums = 4,
      threadsCollectionManager =
        \<lparr>curr_thread_id = 1,
         threads = [0 \<mapsto> \<lparr>id_t = 0, env = \<lparr>jb_pc = InMutexLock, saved_mask = True\<rparr>,
                          quantums = 2\<rparr>,
                    1 \<mapsto> \<lparr>id_t = 1, env = \<lparr>jb_pc = InTimeHandler, saved_mask = True\<rparr>,
                          quantums = 2\<rparr>],
         readyQueue = [],
         waiting_fot_mutex = {0},
         available_ids = {3, 2},
         blocked = {},
         stack_size = 4096\<rparr>,
      mutex = \<lparr>locked = True, locking_thread = 1\<rparr>,
      sigvtalrm_blocked = False,
      sigprocmask_calls = [SIG_BLOCK, SIG_UNBLOCK, SIG_BLOCK]\<rparr>"

text \<open>
  A collection in which threads 2 and 3 wait for the mutex and thread 2 is blocked
  as well.
\<close>

definition two_waiters :: ThreadsCollectionManager where
  "two_waiters =
     \<lparr>curr_thread_id = 0,
      threads = [0 \<mapsto> Thread_default, 1 \<mapsto> Thread_ctor 1, 2 \<mapsto> Thread_ctor 2,
                 3 \<mapsto> Thread_ctor 3],
      readyQueue = [1],
      waiting_fot_mutex = {2, 3},
      available_ids = {},
      blocked = {2},
      stack_size = 4096\<rparr>"

section \<open>The shape of the collection\<close>

lemma live_updates [simp]:
  "live (threads_update f m) = dom (f (threads m))"
  "live (readyQueue_update fq m) = live m"
  "live (curr_thread_id_update fc m) = live m"
  "live (waiting_fot_mutex_update fw m) = live m"
  "live (available_ids_update fa m) = live m"
  "live (blocked_update fb m) = live m"
  by (simp_all add: live_def)

lemma contains_live: "contains m i \<longleftrightarrow> i \<in> live m"
  by (auto simp: contains_def live_def)

lemma dom_threads [simp]: "dom (threads m) = live m"
  by (simp add: live_def)

lemma get_thread_updates [simp]:
  "get_thread j (threads_update f m)
     = (case f (threads m) j of None \<Rightarrow> Thread_default | Some t \<Rightarrow> t)"
  "get_thread j (readyQueue_update fq m) = get_thread j m"
  "get_thread j (curr_thread_id_update fc m) = get_thread j m"
  "get_thread j (waiting_fot_mutex_update fw m) = get_thread j m"
  "get_thread j (available_ids_update fa m) = get_thread j m"
  "get_thread j (blocked_update fb m) = get_thread j m"
  by (simp_all add: get_thread_def)

lemma case_threads [simp]:
  "(case threads m j of None \<Rightarrow> Thread_default | Some t \<Rightarrow> t) = get_thread j m"
  unfolding get_thread_def by (rule refl)


lemma wf_finite_waiting: "wf_manager m \<Longrightarrow> finite (waiting_fot_mutex m)"
  unfolding wf_manager_def by (auto elim: finite_subset [rotated])

lemma wf_admit_new:
  "wf_manager m \<Longrightarrow> i \<in> available_ids m \<Longrightarrow>
   wf_manager (m\<lparr>available_ids := available_ids m - {i},
                 threads := (threads m)(i \<mapsto> Thread_ctor i),
                 readyQueue := readyQueue m @ [i]\<rparr>)"
  unfolding wf_manager_def Thread_ctor_def
  by auto

lemma wf_create_thread: "wf_manager m \<Longrightarrow> wf_manager (snd (create_thread m))"
proof (cases "available_ids m = {}")
  case True
  assume "wf_manager m"
  with True show ?thesis by (simp add: create_thread_def)
next
  case False
  assume wf: "wf_manager m"
  then have "finite (available_ids m)" by (simp add: wf_manager_def)
  with False have "Min (available_ids m) \<in> available_ids m" by simp
  from wf_admit_new [OF wf this] False show ?thesis
    by (simp add: create_thread_def Let_def)
qed

lemma wf_terminate_other:
  "wf_manager m \<Longrightarrow> i \<noteq> curr_thread_id m \<Longrightarrow> wf_manager (terminate i m)"
  unfolding wf_manager_def terminate_def
  by (auto simp: distinct_removeAll split: if_splits)

lemma wf_block_other:
  "wf_manager m \<Longrightarrow> i \<noteq> curr_thread_id m \<Longrightarrow> contains m i \<Longrightarrow> wf_manager (block i m)"
  unfolding wf_manager_def block_def contains_live
  by (auto simp: distinct_removeAll split: if_splits)

lemma wf_resume: "wf_manager m \<Longrightarrow> wf_manager (snd (resume i m))"
  unfolding wf_manager_def resume_def contains_live set_as_ready_def
  by (auto split: if_splits)

lemma wf_admit_waiter:
  "wf_manager m \<Longrightarrow> i \<in> waiting_fot_mutex m - blocked m \<Longrightarrow>
   wf_manager (m\<lparr>readyQueue := readyQueue m @ [i],
                 waiting_fot_mutex := waiting_fot_mutex m - {i}\<rparr>)"
  unfolding wf_manager_def by auto

lemma wf_drop_waiter:
  "wf_manager m \<Longrightarrow> i \<in> waiting_fot_mutex m \<Longrightarrow> i \<in> blocked m \<Longrightarrow>
   wf_manager (m\<lparr>waiting_fot_mutex := waiting_fot_mutex m - {i}\<rparr>)"
  unfolding wf_manager_def by auto

lemma wf_advance_mutex_line: "wf_manager m \<Longrightarrow> wf_manager (advance_mutex_line m)"
proof -
  assume wf: "wf_manager m"
  note fin = wf_finite_waiting [OF wf]
  show ?thesis
  proof (cases "waiting_fot_mutex m = {}")
    case True
    with wf show ?thesis by (simp add: advance_mutex_line_def)
  next
    case ne: False
    show ?thesis
    proof (cases "waiting_fot_mutex m - blocked m = {}")
      case True
      from fin ne have "Min (waiting_fot_mutex m) \<in> waiting_fot_mutex m" by simp
      moreover from this True have "Min (waiting_fot_mutex m) \<in> blocked m" by auto
      ultimately have "wf_manager (m\<lparr>waiting_fot_mutex :=
          waiting_fot_mutex m - {Min (waiting_fot_mutex m)}\<rparr>)"
        using wf by (simp add: wf_drop_waiter)
      with ne True show ?thesis by (simp add: advance_mutex_line_def Let_def)
    next
      case False
      from fin have "finite (waiting_fot_mutex m - blocked m)" by simp
      from this False have "Min (waiting_fot_mutex m - blocked m) \<in> waiting_fot_mutex m - blocked m"
        by (rule Min_in)
      from wf_admit_waiter [OF wf this] ne False show ?thesis
        by (simp add: advance_mutex_line_def Let_def)
    qed
  qed
qed


section \<open>Executions keep the collection in shape\<close>

lemma switch_threads_Jumped:
  "switch_threads h caller s = Jumped s' \<longleftrightarrow>
     (\<exists>x rest. readyQueue (threadsCollectionManager s) = x # rest
        \<and> s' = landed (incr_current_quantums (h (switched caller x rest s))))"
  by (auto simp: switch_threads_def switched_def landed_def siglongjmp_current_def
      set_next_thread_as_running_def sigsetjmp_current_def set_thread_def Let_def
      split: list.splits)

lemma switch_threads_cases:
  "(switch_threads h caller s :: 'r outcome) = UB \<and> readyQueue (threadsCollectionManager s) = []
   \<or> (\<exists>x rest. readyQueue (threadsCollectionManager s) = x # rest
        \<and> (switch_threads h caller s :: 'r outcome)
            = Jumped (landed (incr_current_quantums (h (switched caller x rest s)))))"
  by (auto simp: switch_threads_def switched_def landed_def siglongjmp_current_def
      set_next_thread_as_running_def sigsetjmp_current_def set_thread_def Let_def
      split: list.splits)

lemma wf_mid_switched:
  "wf_state s \<Longrightarrow> readyQueue (threadsCollectionManager s) = x # rest \<Longrightarrow>
   wf_mid (curr_thread_id (threadsCollectionManager s)) caller
     (threadsCollectionManager (switched caller x rest s))"
  unfolding wf_state_def wf_manager_def wf_mid_def switched_def sigsetjmp_current_def set_thread_def Let_def
  by auto

lemma wf_mid_set_as_ready:
  "wf_mid old caller m \<Longrightarrow> caller \<noteq> InTerminate \<Longrightarrow> wf_manager (set_as_ready old m)"
  unfolding wf_mid_def wf_manager_def set_as_ready_def by auto

lemma wf_mid_block:
  "wf_mid old caller m \<Longrightarrow> caller \<noteq> InTerminate \<Longrightarrow> wf_manager (block old m)"
  unfolding wf_mid_def wf_manager_def block_def by auto

lemma wf_mid_wait_for_mutex:
  "wf_mid old caller m \<Longrightarrow> caller \<noteq> InTerminate \<Longrightarrow> wf_manager (wait_for_mutex old m)"
  unfolding wf_mid_def wf_manager_def wait_for_mutex_def by auto

lemma wf_mid_terminate:
  "wf_mid old caller m \<Longrightarrow> wf_manager (terminate old m)"
  unfolding wf_mid_def wf_manager_def terminate_def by auto

lemma wf_incr_current_quantums: "wf_state s \<Longrightarrow> wf_state (incr_current_quantums s)"
  unfolding wf_state_def wf_manager_def incr_current_quantums_def set_thread_def Let_def
  by (auto simp: insert_absorb)

lemma wf_landed [simp]: "wf_state (landed s) = wf_state s"
  by (simp add: wf_state_def landed_def)


lemma wf_masks [simp]:
  "wf_state (mask_time_signal how s) = wf_state s"
  "wf_state (sigprocmask how s) = wf_state s"
  "wf_state (set_timer s) = wf_state s"
  "wf_state (s\<lparr>sigvtalrm_blocked := b\<rparr>) = wf_state s"
  "wf_state (s\<lparr>total_quantums := n\<rparr>) = wf_state s"
  "wf_state (s\<lparr>mutex := mu\<rparr>) = wf_state s"
  by (simp_all add: wf_state_def mask_time_signal_def sigprocmask_def set_timer_def)

lemma wf_on_manager: "wf_state (on_manager f s) = wf_manager (f (threadsCollectionManager s))"
  by (simp add: wf_state_def on_manager_def)

lemma wf_delete_thread_other:
  "wf_state s \<Longrightarrow> tid \<noteq> curr_thread_id (threadsCollectionManager s) \<Longrightarrow> wf_state (delete_thread tid s)"
  by (simp add: delete_thread_def Let_def wf_on_manager wf_terminate_other wf_advance_mutex_line)
     (simp add: wf_state_def on_manager_def wf_terminate_other wf_advance_mutex_line)

lemma wf_mid_delete_thread:
  "wf_mid old caller (threadsCollectionManager u) \<Longrightarrow> wf_state (delete_thread old u)"
  by (simp add: delete_thread_def Let_def wf_on_manager wf_mid_terminate wf_advance_mutex_line)
     (simp add: wf_state_def on_manager_def wf_mid_terminate wf_advance_mutex_line)

lemma wf_switch_threads:
  assumes "wf_state s" and "switch_threads h caller s = Jumped s'"
    and "\<And>u. wf_mid (curr_thread_id (threadsCollectionManager s)) caller
                (threadsCollectionManager u) \<Longrightarrow> wf_state (h u)"
  shows "wf_state s'"
proof -
  from assms(2) obtain x rest where
    q: "readyQueue (threadsCollectionManager s) = x # rest" and
    s': "s' = landed (incr_current_quantums (h (switched caller x rest s)))"
    by (auto simp: switch_threads_Jumped)
  from wf_mid_switched [OF assms(1) q] have "wf_state (h (switched caller x rest s))"
    by (rule assms(3))
  then show ?thesis by (simp add: s' wf_incr_current_quantums)
qed

lemma switch_threads_not_Return [simp]:
  "switch_threads h caller s \<noteq> Return r s'"
  "switch_threads h caller s \<noteq> Exit c s'"
  "switch_threads_mid_quantum h caller s \<noteq> Return r s'"
  "switch_threads_mid_quantum h caller s \<noteq> Exit c s'"
  by (simp_all add: switch_threads_mid_quantum_def switch_threads_def siglongjmp_current_def
      Let_def split: option.splits)

lemma wf_switch_threads_mid_quantum:
  assumes "wf_state s" and "switch_threads_mid_quantum h caller s = Jumped s'"
    and "\<And>u. wf_mid (curr_thread_id (threadsCollectionManager s)) caller
                (threadsCollectionManager u) \<Longrightarrow> wf_state (h u)"
  shows "wf_state s'"
  using assms unfolding switch_threads_mid_quantum_def set_timer_def
  by (rule wf_switch_threads)

lemma wf_time_sig_handler:
  assumes "wf_state s" and "time_sig_handler s = Return u s' \<or> time_sig_handler s = Jumped s'"
  shows "wf_state s'"
proof (cases "is_someone_waiting (threadsCollectionManager s)")
  case False
  with assms show ?thesis
    by (auto simp: time_sig_handler_def wf_incr_current_quantums)
next
  case True
  with assms(2) have
    "switch_threads (on_manager (set_as_ready (curr_thread_id (threadsCollectionManager s))))
       InTimeHandler s = (Jumped s' :: unit outcome)"
    by (simp add: time_sig_handler_def Let_def get_curr_id_def)
  with assms(1) show ?thesis
    by (rule wf_switch_threads) (simp add: wf_on_manager wf_mid_set_as_ready)
qed

lemma wf_mutex_lock_loop:
  assumes "wf_state s" and "mutex_lock_loop s = Return r s' \<or> mutex_lock_loop s = Jumped s'"
  shows "wf_state s'"
proof (cases "locked (mutex s)")
  case False
  with assms show ?thesis by (auto simp: mutex_lock_loop_def)
next
  case True
  with assms(2) have
    "switch_threads_mid_quantum
       (on_manager (wait_for_mutex (curr_thread_id (threadsCollectionManager s))))
       InMutexLock s = (Jumped s' :: int outcome)"
    by (simp add: mutex_lock_loop_def Let_def get_curr_id_def)
  with assms(1) show ?thesis
    by (rule wf_switch_threads_mid_quantum) (simp add: wf_on_manager wf_mid_wait_for_mutex)
qed

lemma wf_uthread_spawn:
  assumes "wf_state s" and "uthread_spawn s = Return r s' \<or> uthread_spawn s = Jumped s'"
  shows "wf_state s'"
  using assms wf_create_thread [of "threadsCollectionManager s"]
  by (auto simp: uthread_spawn_def wf_state_def split: prod.splits)

lemma wf_uthread_terminate:
  assumes "wf_state s" and "uthread_terminate tid s = Return r s' \<or> uthread_terminate tid s = Jumped s'"
  shows "wf_state s'"
proof -
  let ?s1 = "mask_time_signal SIG_BLOCK s"
  have m1: "threadsCollectionManager ?s1 = threadsCollectionManager s"
    by (simp add: mask_time_signal_def sigprocmask_def)
  have wf1: "wf_state ?s1" using assms(1) by simp
  consider (exit) "tid = 0"
    | (missing) "tid \<noteq> 0" "\<not> contains (threadsCollectionManager s) tid"
    | (self) "tid \<noteq> 0" "contains (threadsCollectionManager s) tid"
        "tid = curr_thread_id (threadsCollectionManager s)"
    | (other) "tid \<noteq> 0" "contains (threadsCollectionManager s) tid"
        "tid \<noteq> curr_thread_id (threadsCollectionManager s)"
    by blast
  then show ?thesis
  proof cases
    case exit
    with assms(2) show ?thesis by (simp add: uthread_terminate_def Let_def)
  next
    case missing
    with assms show ?thesis by (auto simp: uthread_terminate_def Let_def m1)
  next
    case self
    with assms(2) have "switch_threads_mid_quantum (delete_thread tid) InTerminate ?s1
        = (Jumped s' :: int outcome)"
      by (simp add: uthread_terminate_def Let_def m1 get_curr_id_def)
    with wf1 show ?thesis
      by (rule wf_switch_threads_mid_quantum) (simp add: m1 self(3) [symmetric] wf_mid_delete_thread)
  next
    case other
    with assms(2) have "s' = mask_time_signal SIG_UNBLOCK (delete_thread tid ?s1)"
      by (auto simp: uthread_terminate_def Let_def m1 get_curr_id_def)
    with wf1 other(3) show ?thesis by (simp add: wf_delete_thread_other m1)
  qed
qed

lemma wf_uthread_block:
  assumes "wf_state s" and "uthread_block tid s = Return r s' \<or> uthread_block tid s = Jumped s'"
  shows "wf_state s'"
proof -
  let ?s1 = "mask_time_signal SIG_BLOCK s"
  have m1: "threadsCollectionManager ?s1 = threadsCollectionManager s"
    by (simp add: mask_time_signal_def sigprocmask_def)
  have wf1: "wf_state ?s1" using assms(1) by simp
  consider (bad) "tid = 0 \<or> \<not> contains (threadsCollectionManager s) tid"
    | (self) "tid \<noteq> 0" "contains (threadsCollectionManager s) tid"
        "tid = curr_thread_id (threadsCollectionManager s)"
    | (other) "tid \<noteq> 0" "contains (threadsCollectionManager s) tid"
        "tid \<noteq> curr_thread_id (threadsCollectionManager s)"
    by blast
  then show ?thesis
  proof cases
    case bad
    with assms show ?thesis by (auto simp: uthread_block_def Let_def m1)
  next
    case self
    with assms(2) have "switch_threads_mid_quantum (on_manager (block tid)) InBlock ?s1
        = (Jumped s' :: int outcome)"
      by (simp add: uthread_block_def Let_def m1 get_curr_id_def)
    with wf1 show ?thesis
      by (rule wf_switch_threads_mid_quantum)
         (simp add: m1 self(3) [symmetric] wf_on_manager wf_mid_block)
  next
    case other
    with assms(2) have "s' = mask_time_signal SIG_UNBLOCK (on_manager (block tid) ?s1)"
      by (auto simp: uthread_block_def Let_def m1 get_curr_id_def)
    with assms(1) other show ?thesis
      by (simp add: wf_on_manager m1 wf_block_other wf_state_def [symmetric])
  qed
qed

lemma wf_uthread_resume:
  assumes "wf_state s" and "uthread_resume tid s = Return r s' \<or> uthread_resume tid s = Jumped s'"
  shows "wf_state s'"
  using assms wf_resume [of "threadsCollectionManager s" tid]
  by (auto simp: uthread_resume_def Let_def wf_state_def mask_time_signal_def sigprocmask_def
      split: prod.splits)

lemma wf_uthread_mutex_lock:
  assumes "wf_state s" and "uthread_mutex_lock s = Return r s' \<or> uthread_mutex_lock s = Jumped s'"
  shows "wf_state s'"
  using assms wf_mutex_lock_loop [of "mask_time_signal SIG_BLOCK s" r s']
  by (auto simp: uthread_mutex_lock_def Let_def split: if_splits)

lemma wf_uthread_mutex_unlock:
  assumes "wf_state s" and "uthread_mutex_unlock s = Return r s' \<or> uthread_mutex_unlock s = Jumped s'"
  shows "wf_state s'"
  using assms wf_advance_mutex_line [of "threadsCollectionManager s"]
  by (auto simp: uthread_mutex_unlock_def Let_def wf_on_manager wf_state_def mask_time_signal_def
      sigprocmask_def on_manager_def split: if_splits)

lemma wf_call:
  assumes "wf_state s" and "call c s = Return r s' \<or> call c s = Jumped s'"
  shows "wf_state s'"
proof (cases c)
  case Spawn
  with assms show ?thesis by (simp add: wf_uthread_spawn)
next
  case (Terminate tid)
  with assms show ?thesis using wf_uthread_terminate [of s tid r s'] by simp
next
  case (Block tid)
  with assms show ?thesis using wf_uthread_block [of s tid r s'] by simp
next
  case (Resume tid)
  with assms show ?thesis using wf_uthread_resume [of s tid r s'] by simp
next
  case MutexLock
  with assms show ?thesis using wf_uthread_mutex_lock [of s r s'] by simp
next
  case MutexUnlock
  with assms show ?thesis using wf_uthread_mutex_unlock [of s r s'] by simp
next
  case GetTid
  with assms show ?thesis by (auto simp: uthread_get_tid_def)
next
  case GetTotalQuantums
  with assms show ?thesis by (auto simp: uthread_get_total_quantums_def)
next
  case (GetQuantums tid)
  with assms show ?thesis
    by (auto simp: uthread_get_quantums_def Let_def split: if_splits)
qed

lemma wf_resume_thread: "wf_state s \<Longrightarrow> resume_thread s = Some s' \<Longrightarrow> wf_state s'"
proof (induction s rule: resume_thread.induct)
  case (1 s)
  let ?m = "threadsCollectionManager s"
  from "1.prems"(1) have live: "curr_thread_id ?m \<in> live ?m"
    by (simp add: wf_state_def wf_manager_def)
  with "1.prems"(1) have nt: "jb_pc (env (get_current_thread ?m)) \<noteq> InTerminate"
    by (simp add: wf_state_def wf_manager_def get_current_thread_def)
  show ?case
  proof (cases "jb_pc (env (get_current_thread ?m))")
    case InMutexLock
    show ?thesis
    proof (cases "mutex_lock_loop s")
      case (Return r s1)
      with InMutexLock "1.prems" wf_mutex_lock_loop [of s r s'] show ?thesis
        by (simp add: resume_thread.simps [of s])
    next
      case (Jumped s1)
      with "1.prems"(1) have "wf_state s1" using wf_mutex_lock_loop [of s 0 s1] by simp
      moreover from Jumped InMutexLock "1.prems"(2) have "resume_thread s1 = Some s'"
        by (simp add: resume_thread.simps [of s])
      ultimately show ?thesis using "1.IH" [OF InMutexLock Jumped] by simp
    next
      case (Exit c s1)
      with InMutexLock "1.prems" show ?thesis by (simp add: resume_thread.simps [of s])
    next
      case UB
      with InMutexLock "1.prems" show ?thesis by (simp add: resume_thread.simps [of s])
    qed
  qed (use "1.prems" nt in \<open>auto simp: resume_thread.simps [of s]\<close>)
qed

lemma wf_settle:
  "wf_state s \<Longrightarrow> settle (call c s) = Some s' \<Longrightarrow> wf_state s'"
  by (cases "call c s") (auto simp: settle_def dest: wf_call wf_resume_thread)

lemma wf_deliver_tick: "wf_state s \<Longrightarrow> deliver_tick s = Some s' \<Longrightarrow> wf_state s'"
proof -
  assume a: "wf_state s" "deliver_tick s = Some s'"
  let ?s1 = "s\<lparr>sigvtalrm_blocked := True\<rparr>"
  from a(1) have wf1: "wf_state ?s1" by simp
  show ?thesis
  proof (cases "time_sig_handler ?s1")
    case (Return u s1)
    with wf1 have "wf_state s1" using wf_time_sig_handler [of ?s1 u s1] by simp
    with a(2) Return show ?thesis by (auto simp: deliver_tick_def split: if_splits)
  next
    case (Jumped s1)
    with wf1 have "wf_state s1" using wf_time_sig_handler [of ?s1 "()" s1] by simp
    with a(2) Jumped show ?thesis
      by (auto simp: deliver_tick_def split: if_splits dest: wf_resume_thread)
  qed (use a(2) in \<open>auto simp: deliver_tick_def split: if_splits\<close>)
qed

lemma wf_step: "wf_state s \<Longrightarrow> step e s = Some s' \<Longrightarrow> wf_state s'"
  by (cases e) (auto dest: wf_settle wf_deliver_tick)

lemma wf_run: "wf_state s \<Longrightarrow> run s es = Some s' \<Longrightarrow> wf_state s'"
  by (induction es arbitrary: s) (auto split: option.splits dest: wf_step)

lemma fill_available_ids_eq: "fill_available_ids i n A = A \<union> {i..<n}"
proof (induction i n A rule: fill_available_ids.induct)
  case (1 i n A)
  show ?case
  proof (cases "i < n")
    case True
    then have "{i..<n} = insert i {i + 1..<n}" by auto
    with True "1.IH" show ?thesis by (simp add: fill_available_ids.simps [of i])
  next
    case False
    then show ?thesis by (simp add: fill_available_ids.simps [of i])
  qed
qed

lemma wf_static_state: "wf_state (static_state N ss)"
  by (simp add: wf_state_def wf_manager_def static_state_def ThreadsCollectionManager_ctor_def
      fill_available_ids_eq live_def get_thread_def Thread_default_def)

lemma wf_run_library: "run_library N ss q es = Some s \<Longrightarrow> wf_state s"
  using wf_static_state [of N ss]
  by (auto simp: run_library_def uthread_init_def set_timer_def
      split: if_splits dest: wf_run [rotated])


section \<open>What the pieces of a call leave unchanged\<close>

lemma manager_masks [simp]:
  "threadsCollectionManager (mask_time_signal how s) = threadsCollectionManager s"
  "threadsCollectionManager (sigprocmask how s) = threadsCollectionManager s"
  "mutex (mask_time_signal how s) = mutex s"
  "mutex (sigprocmask how s) = mutex s"
  "total_quantums (mask_time_signal how s) = total_quantums s"
  "total_quantums (sigprocmask how s) = total_quantums s"
  "sigvtalrm_blocked (mask_time_signal how s) = (how = SIG_BLOCK)"
  "sigvtalrm_blocked (sigprocmask how s) = (how = SIG_BLOCK)"
  "sigprocmask_calls (mask_time_signal how s) = sigprocmask_calls s @ [how]"
  "sigprocmask_calls (sigprocmask how s) = sigprocmask_calls s @ [how]"
  by (simp_all add: mask_time_signal_def sigprocmask_def)

lemma landed_fields [simp]:
  "threadsCollectionManager (landed s) = threadsCollectionManager s"
  "mutex (landed s) = mutex s"
  "total_quantums (landed s) = total_quantums s"
  "sigprocmask_calls (landed s) = sigprocmask_calls s"
  by (simp_all add: landed_def)

lemma incr_current_quantums_fields [simp]:
  "curr_thread_id (threadsCollectionManager (incr_current_quantums s))
     = curr_thread_id (threadsCollectionManager s)"
  "readyQueue (threadsCollectionManager (incr_current_quantums s))
     = readyQueue (threadsCollectionManager s)"
  "waiting_fot_mutex (threadsCollectionManager (incr_current_quantums s))
     = waiting_fot_mutex (threadsCollectionManager s)"
  "available_ids (threadsCollectionManager (incr_current_quantums s))
     = available_ids (threadsCollectionManager s)"
  "blocked (threadsCollectionManager (incr_current_quantums s))
     = blocked (threadsCollectionManager s)"
  "mutex (incr_current_quantums s) = mutex s"
  "total_quantums (incr_current_quantums s) = total_quantums s"
  "sigvtalrm_blocked (incr_current_quantums s) = sigvtalrm_blocked s"
  "sigprocmask_calls (incr_current_quantums s) = sigprocmask_calls s"
  by (simp_all add: incr_current_quantums_def set_thread_def Let_def)

lemma switched_fields [simp]:
  "curr_thread_id (threadsCollectionManager (switched caller x rest s)) = x"
  "readyQueue (threadsCollectionManager (switched caller x rest s)) = rest"
  "waiting_fot_mutex (threadsCollectionManager (switched caller x rest s))
     = waiting_fot_mutex (threadsCollectionManager s)"
  "available_ids (threadsCollectionManager (switched caller x rest s))
     = available_ids (threadsCollectionManager s)"
  "blocked (threadsCollectionManager (switched caller x rest s))
     = blocked (threadsCollectionManager s)"
  "mutex (switched caller x rest s) = mutex s"
  "total_quantums (switched caller x rest s) = total_quantums s + 1"
  "sigvtalrm_blocked (switched caller x rest s) = sigvtalrm_blocked s"
  "sigprocmask_calls (switched caller x rest s) = sigprocmask_calls s"
  by (simp_all add: switched_def sigsetjmp_current_def set_thread_def Let_def)

lemma delete_thread_fields [simp]:
  "available_ids (threadsCollectionManager (delete_thread tid s))
     = insert tid (available_ids (threadsCollectionManager s))"
  "curr_thread_id (threadsCollectionManager (delete_thread tid s))
     = curr_thread_id (threadsCollectionManager s)"
  "total_quantums (delete_thread tid s) = total_quantums s"
  "sigvtalrm_blocked (delete_thread tid s) = sigvtalrm_blocked s"
  "sigprocmask_calls (delete_thread tid s) = sigprocmask_calls s"
  by (simp_all add: delete_thread_def on_manager_def terminate_def advance_mutex_line_def Let_def)

lemma switch_threads_mid_quantum_Jumped:
  "switch_threads_mid_quantum h caller s = Jumped s' \<longleftrightarrow>
     (\<exists>x rest. readyQueue (threadsCollectionManager s) = x # rest
        \<and> s' = landed (incr_current_quantums (h (switched caller x rest s))))"
  by (simp add: switch_threads_mid_quantum_def set_timer_def switch_threads_Jumped)

lemma on_manager_fields [simp]:
  "mutex (on_manager f s) = mutex s"
  "total_quantums (on_manager f s) = total_quantums s"
  "sigvtalrm_blocked (on_manager f s) = sigvtalrm_blocked s"
  "sigprocmask_calls (on_manager f s) = sigprocmask_calls s"
  "threadsCollectionManager (on_manager f s) = f (threadsCollectionManager s)"
  by (simp_all add: on_manager_def)





section \<open>Accounting for the quantums\<close>

lemma quantum_sum_live: "quantum_sum m = (\<Sum>i \<in> live m. quantums (get_thread i m))"
  by (simp add: quantum_sum_def)

lemma quantum_sum_frame [simp]:
  "quantum_sum (readyQueue_update fq m) = quantum_sum m"
  "quantum_sum (curr_thread_id_update fc m) = quantum_sum m"
  "quantum_sum (waiting_fot_mutex_update fw m) = quantum_sum m"
  "quantum_sum (available_ids_update fa m) = quantum_sum m"
  "quantum_sum (blocked_update fb m) = quantum_sum m"
  by (simp_all add: quantum_sum_live)

lemma quantum_sum_threads_cong:
  "threads m' = threads m \<Longrightarrow> quantum_sum m' = quantum_sum m"
  by (simp add: quantum_sum_def get_thread_def del: dom_threads case_threads)

lemma quantum_sum_set_thread:
  assumes "finite (live m)" and "i \<in> live m"
  shows "quantum_sum (set_thread i t m) = quantum_sum m - quantums (get_thread i m) + quantums t"
proof -
  have l: "live (set_thread i t m) = live m"
    using assms(2) by (auto simp: set_thread_def)
  have "quantum_sum (set_thread i t m)
      = (\<Sum>j \<in> live m. quantums (get_thread j (set_thread i t m)))"
    by (simp add: quantum_sum_live l)
  also have "\<dots> = quantums t + (\<Sum>j \<in> live m - {i}. quantums (get_thread j (set_thread i t m)))"
    using assms by (simp add: sum.remove set_thread_def)
  also have "(\<Sum>j \<in> live m - {i}. quantums (get_thread j (set_thread i t m)))
      = (\<Sum>j \<in> live m - {i}. quantums (get_thread j m))"
    by (rule sum.cong) (simp_all add: set_thread_def)
  also have "\<dots> = quantum_sum m - quantums (get_thread i m)"
    using assms by (simp add: quantum_sum_live sum.remove [of "live m" i])
  finally show ?thesis by simp
qed

lemma quantum_sum_new_thread:
  assumes "finite (live m)" and "i \<notin> live m"
  shows "quantum_sum (m\<lparr>threads := (threads m)(i \<mapsto> t)\<rparr>) = quantum_sum m + quantums t"
proof -
  let ?m' = "m\<lparr>threads := (threads m)(i \<mapsto> t)\<rparr>"
  have l: "live ?m' = insert i (live m)" by simp
  have g: "get_thread i ?m' = t" by simp
  have "quantum_sum ?m' = (\<Sum>j \<in> insert i (live m). quantums (get_thread j ?m'))"
    unfolding quantum_sum_live l ..
  also have "\<dots> = quantums (get_thread i ?m') + (\<Sum>j \<in> live m. quantums (get_thread j ?m'))"
    using assms by (rule sum.insert)
  also have "(\<Sum>j \<in> live m. quantums (get_thread j ?m')) = (\<Sum>j \<in> live m. quantums (get_thread j m))"
    using assms(2) by (intro sum.cong) auto
  finally show ?thesis unfolding g quantum_sum_live by (simp only: add.commute)
qed

lemma quantum_sum_erase:
  assumes "finite (live m)" and "i \<in> live m"
  shows "quantum_sum (m\<lparr>threads := (threads m)(i := None)\<rparr>)
      = quantum_sum m - quantums (get_thread i m)"
proof -
  have "quantum_sum (m\<lparr>threads := (threads m)(i := None)\<rparr>)
      = (\<Sum>j \<in> live m - {i}. quantums (get_thread j (m\<lparr>threads := (threads m)(i := None)\<rparr>)))"
    by (simp add: quantum_sum_live)
  also have "\<dots> = (\<Sum>j \<in> live m - {i}. quantums (get_thread j m))"
    by (intro sum.cong) auto
  also have "\<dots> = quantum_sum m - quantums (get_thread i m)"
    using assms by (simp add: quantum_sum_live sum.remove [of "live m" i])
  finally show ?thesis .
qed


lemma sum_quantums_frame [simp]:
  "sum_quantums (mask_time_signal how s) = sum_quantums s"
  "sum_quantums (sigprocmask how s) = sum_quantums s"
  "sum_quantums (landed s) = sum_quantums s"
  "sum_quantums (s\<lparr>sigvtalrm_blocked := b\<rparr>) = sum_quantums s"
  "sum_quantums (s\<lparr>total_quantums := n\<rparr>) = sum_quantums s"
  "sum_quantums (s\<lparr>mutex := mu\<rparr>) = sum_quantums s"
  by (simp_all add: sum_quantums_def)

lemma sum_quantums_on_manager:
  "sum_quantums (on_manager (set_as_ready i) s) = sum_quantums s"
  "sum_quantums (on_manager (block i) s) = sum_quantums s"
  "sum_quantums (on_manager (wait_for_mutex i) s) = sum_quantums s"
  "sum_quantums (on_manager advance_mutex_line s) = sum_quantums s"
  by (simp_all add: sum_quantums_def set_as_ready_def block_def wait_for_mutex_def
      advance_mutex_line_def Let_def)

lemma quantum_sum_terminate:
  "finite (live m) \<Longrightarrow> i \<in> live m \<Longrightarrow>
   quantum_sum (terminate i m) = quantum_sum m - quantums (get_thread i m)"
  using quantum_sum_erase [of m i] by (simp add: terminate_def)

lemma sum_quantums_delete_thread:
  assumes "finite (live (threadsCollectionManager s))" and "i \<in> live (threadsCollectionManager s)"
  shows "sum_quantums (delete_thread i s)
      = sum_quantums s - quantums (get_thread i (threadsCollectionManager s))"
  using assms
  by (simp add: delete_thread_def Let_def sum_quantums_on_manager)
     (simp add: sum_quantums_def on_manager_def quantum_sum_terminate)

lemma wf_state_live:
  assumes "wf_state s"
  shows "finite (live (threadsCollectionManager s))"
    and "curr_thread_id (threadsCollectionManager s) \<in> live (threadsCollectionManager s)"
proof -
  from assms have w: "wf_manager (threadsCollectionManager s)" by (simp add: wf_state_def)
  then show "finite (live (threadsCollectionManager s))" unfolding wf_manager_def by blast
  from w have "live (threadsCollectionManager s) =
      insert (curr_thread_id (threadsCollectionManager s))
        (set (readyQueue (threadsCollectionManager s)) \<union> blocked (threadsCollectionManager s)
          \<union> waiting_fot_mutex (threadsCollectionManager s))"
    unfolding wf_manager_def by blast
  then show "curr_thread_id (threadsCollectionManager s) \<in> live (threadsCollectionManager s)"
    by blast
qed

lemma sum_quantums_switched:
  assumes "wf_state s"
  shows "sum_quantums (switched caller x rest s) = sum_quantums s"
proof -
  let ?m = "threadsCollectionManager s"
  from assms have "finite (live ?m)" and "curr_thread_id ?m \<in> live ?m"
    by (rule wf_state_live)+
  then show ?thesis
    by (simp add: sum_quantums_def switched_def sigsetjmp_current_def Let_def
        quantum_sum_set_thread)
qed

lemma sum_quantums_incr:
  assumes "wf_state s"
  shows "sum_quantums (incr_current_quantums s) = sum_quantums s + 1"
proof -
  let ?m = "threadsCollectionManager s"
  from assms have "finite (live ?m)" and "curr_thread_id ?m \<in> live ?m"
    by (rule wf_state_live)+
  then show ?thesis
    by (simp add: sum_quantums_def incr_current_quantums_def Let_def quantum_sum_set_thread)
qed

lemma unaccounted_switch:
  assumes wf: "wf_state s" and j: "switch_threads h caller s = Jumped s'"
    and hwf: "\<And>u. wf_mid (curr_thread_id (threadsCollectionManager s)) caller
                (threadsCollectionManager u) \<Longrightarrow> wf_state (h u)"
    and hsum: "\<And>u. wf_mid (curr_thread_id (threadsCollectionManager s)) caller
                (threadsCollectionManager u) \<Longrightarrow>
                sum_quantums (h u) = sum_quantums u - d u \<and> total_quantums (h u) = total_quantums u"
  shows "\<exists>x rest. readyQueue (threadsCollectionManager s) = x # rest
     \<and> unaccounted s' = unaccounted s + d (switched caller x rest s)"
proof -
  from j obtain x rest where
    q: "readyQueue (threadsCollectionManager s) = x # rest" and
    s': "s' = landed (incr_current_quantums (h (switched caller x rest s)))"
    by (auto simp: switch_threads_Jumped)
  let ?u = "switched caller x rest s"
  note mid = wf_mid_switched [OF wf q, of caller]
  from hwf [OF mid] have "sum_quantums (incr_current_quantums (h ?u)) = sum_quantums (h ?u) + 1"
    by (rule sum_quantums_incr)
  with hsum [OF mid] sum_quantums_switched [OF wf, of caller x rest]
  have "unaccounted s' = unaccounted s + d ?u"
    by (simp add: unaccounted_def s')
  with q show ?thesis by blast
qed


lemma unaccounted_frame [simp]:
  "unaccounted (mask_time_signal how s) = unaccounted s"
  "unaccounted (sigprocmask how s) = unaccounted s"
  "unaccounted (s\<lparr>sigvtalrm_blocked := b\<rparr>) = unaccounted s"
  "unaccounted (s\<lparr>mutex := mu\<rparr>) = unaccounted s"
  by (simp_all add: unaccounted_def)

lemma unaccounted_switch_keep:
  assumes wf: "wf_state s" and j: "switch_threads (on_manager f) caller s = Jumped s'"
    and c: "caller \<noteq> InTerminate"
    and f: "f = set_as_ready (curr_thread_id (threadsCollectionManager s))
          \<or> f = block (curr_thread_id (threadsCollectionManager s))
          \<or> f = wait_for_mutex (curr_thread_id (threadsCollectionManager s))"
  shows "unaccounted s' = unaccounted s"
proof -
  have "\<exists>x rest. readyQueue (threadsCollectionManager s) = x # rest
     \<and> unaccounted s' = unaccounted s + (\<lambda>u. 0) (switched caller x rest s)"
    using wf j
  proof (rule unaccounted_switch)
    fix u :: lib_state
    assume "wf_mid (curr_thread_id (threadsCollectionManager s)) caller (threadsCollectionManager u)"
    with c f show "wf_state (on_manager f u)"
      by (auto simp: wf_on_manager wf_mid_set_as_ready wf_mid_block wf_mid_wait_for_mutex)
    from f show "sum_quantums (on_manager f u) = sum_quantums u - 0
        \<and> total_quantums (on_manager f u) = total_quantums u"
      by (auto simp: sum_quantums_on_manager)
  qed
  then show ?thesis by auto
qed

lemma unaccounted_switch_delete:
  assumes wf: "wf_state s"
    and j: "switch_threads (delete_thread (curr_thread_id (threadsCollectionManager s)))
              InTerminate s = Jumped s'"
  shows "unaccounted s' = unaccounted s
      + quantums (get_thread (curr_thread_id (threadsCollectionManager s))
          (threadsCollectionManager s))"
proof -
  let ?c = "curr_thread_id (threadsCollectionManager s)"
  let ?d = "\<lambda>u. quantums (get_thread ?c (threadsCollectionManager u))"
  have "\<exists>x rest. readyQueue (threadsCollectionManager s) = x # rest
     \<and> unaccounted s' = unaccounted s + ?d (switched InTerminate x rest s)"
    using wf j
  proof (rule unaccounted_switch)
    fix u :: lib_state
    assume mid: "wf_mid ?c InTerminate (threadsCollectionManager u)"
    then show "wf_state (delete_thread ?c u)" by (rule wf_mid_delete_thread)
    from mid have "finite (live (threadsCollectionManager u))"
      and "?c \<in> live (threadsCollectionManager u)"
      unfolding wf_mid_def by blast+
    then show "sum_quantums (delete_thread ?c u) = sum_quantums u - ?d u
        \<and> total_quantums (delete_thread ?c u) = total_quantums u"
      by (simp add: sum_quantums_delete_thread)
  qed
  moreover have "\<And>x rest. ?d (switched InTerminate x rest s)
      = quantums (get_thread ?c (threadsCollectionManager s))"
    by (simp add: switched_def sigsetjmp_current_def set_thread_def Let_def)
  ultimately show ?thesis by auto
qed

lemma unaccounted_mutex_lock_loop:
  assumes "wf_state s" and "mutex_lock_loop s = Return r s' \<or> mutex_lock_loop s = Jumped s'"
  shows "unaccounted s' = unaccounted s"
proof (cases "locked (mutex s)")
  case False
  with assms show ?thesis by (auto simp: mutex_lock_loop_def)
next
  case True
  with assms(2) have
    "switch_threads
       (on_manager (wait_for_mutex (curr_thread_id (threadsCollectionManager s))))
       InMutexLock s = (Jumped s' :: int outcome)"
    by (simp add: mutex_lock_loop_def Let_def get_curr_id_def switch_threads_mid_quantum_def
        set_timer_def)
  with assms(1) show ?thesis by (rule unaccounted_switch_keep) simp_all
qed

lemma unaccounted_time_sig_handler:
  assumes "wf_state s" and "time_sig_handler s = Return u s' \<or> time_sig_handler s = Jumped s'"
  shows "unaccounted s' = unaccounted s"
proof (cases "is_someone_waiting (threadsCollectionManager s)")
  case False
  from assms(1) have "wf_state (s\<lparr>total_quantums := total_quantums s + 1\<rparr>)" by simp
  from sum_quantums_incr [OF this] False assms(2) show ?thesis
    by (auto simp: time_sig_handler_def unaccounted_def)
next
  case True
  with assms(2) have
    "switch_threads (on_manager (set_as_ready (curr_thread_id (threadsCollectionManager s))))
       InTimeHandler s = (Jumped s' :: unit outcome)"
    by (simp add: time_sig_handler_def Let_def get_curr_id_def)
  with assms(1) show ?thesis by (rule unaccounted_switch_keep) simp_all
qed

lemma unaccounted_call:
  assumes "wf_state s" and "call c s = Return r s' \<or> call c s = Jumped s'"
  shows "unaccounted s' = unaccounted s + retired (Call c) s"
proof (cases c)
  case Spawn
  let ?m = "threadsCollectionManager s"
  show ?thesis
  proof (cases "available_ids ?m = {}")
    case True
    with Spawn assms(2) show ?thesis by (auto simp: uthread_spawn_def create_thread_def)
  next
    case False
    from assms(1) have w: "wf_manager ?m" by (simp add: wf_state_def)
    then have "finite (available_ids ?m)" and "finite (live ?m)"
      and "\<forall>i \<in> available_ids ?m. i \<notin> live ?m"
      unfolding wf_manager_def by blast+
    with False have "Min (available_ids ?m) \<notin> live ?m" by simp
    with \<open>finite (live ?m)\<close> have
      "quantum_sum (?m\<lparr>threads := (threads ?m)(Min (available_ids ?m) \<mapsto>
          Thread_ctor (Min (available_ids ?m)))\<rparr>) = quantum_sum ?m"
      by (simp add: quantum_sum_new_thread Thread_ctor_def)
    moreover have "quantum_sum (snd (create_thread ?m))
        = quantum_sum (?m\<lparr>threads := (threads ?m)(Min (available_ids ?m) \<mapsto>
          Thread_ctor (Min (available_ids ?m)))\<rparr>)"
      using False by (intro quantum_sum_threads_cong) (simp add: create_thread_def Let_def)
    ultimately have "quantum_sum (snd (create_thread ?m)) = quantum_sum ?m" by simp
    with Spawn assms(2) show ?thesis
      by (auto simp: uthread_spawn_def unaccounted_def sum_quantums_def split: prod.splits)
  qed
next
  case (Terminate tid)
  let ?s1 = "mask_time_signal SIG_BLOCK s"
  let ?m = "threadsCollectionManager s"
  have wf1: "wf_state ?s1" using assms(1) by simp
  consider (exit) "tid = 0"
    | (missing) "tid \<noteq> 0" "\<not> contains ?m tid"
    | (self) "tid \<noteq> 0" "contains ?m tid" "tid = curr_thread_id ?m"
    | (other) "tid \<noteq> 0" "contains ?m tid" "tid \<noteq> curr_thread_id ?m"
    by blast
  then show ?thesis
  proof cases
    case exit
    with assms(2) Terminate show ?thesis by (simp add: uthread_terminate_def Let_def)
  next
    case missing
    with assms(2) Terminate show ?thesis by (auto simp: uthread_terminate_def Let_def)
  next
    case self
    with assms(2) Terminate have
      "switch_threads (delete_thread (curr_thread_id (threadsCollectionManager ?s1)))
         InTerminate ?s1 = (Jumped s' :: int outcome)"
      by (simp add: uthread_terminate_def Let_def get_curr_id_def switch_threads_mid_quantum_def
          set_timer_def)
    from unaccounted_switch_delete [OF wf1 this] self Terminate show ?thesis by simp
  next
    case other
    with assms(2) Terminate have s': "s' = mask_time_signal SIG_UNBLOCK (delete_thread tid ?s1)"
      by (auto simp: uthread_terminate_def Let_def get_curr_id_def)
    from wf_state_live(1) [OF assms(1)] other(2)
    have "sum_quantums (delete_thread tid ?s1) = sum_quantums ?s1 - quantums (get_thread tid ?m)"
      by (simp add: sum_quantums_delete_thread contains_live)
    with other Terminate show ?thesis by (simp add: s' unaccounted_def)
  qed
next
  case (Block tid)
  let ?s1 = "mask_time_signal SIG_BLOCK s"
  let ?m = "threadsCollectionManager s"
  have wf1: "wf_state ?s1" using assms(1) by simp
  consider (bad) "tid = 0 \<or> \<not> contains ?m tid"
    | (self) "tid \<noteq> 0" "contains ?m tid" "tid = curr_thread_id ?m"
    | (other) "tid \<noteq> 0" "contains ?m tid" "tid \<noteq> curr_thread_id ?m"
    by blast
  then show ?thesis
  proof cases
    case bad
    with assms(2) Block show ?thesis by (auto simp: uthread_block_def Let_def)
  next
    case self
    with assms(2) Block have
      "switch_threads (on_manager (block tid)) InBlock ?s1 = (Jumped s' :: int outcome)"
      by (simp add: uthread_block_def Let_def get_curr_id_def switch_threads_mid_quantum_def
          set_timer_def)
    with wf1 have "unaccounted s' = unaccounted ?s1"
      by (rule unaccounted_switch_keep) (simp_all add: self)
    with Block show ?thesis by simp
  next
    case other
    with assms(2) Block show ?thesis
      by (auto simp: uthread_block_def Let_def get_curr_id_def unaccounted_def
          sum_quantums_on_manager)
  qed
next
  case (Resume tid)
  with assms(2) show ?thesis
    by (auto simp: uthread_resume_def resume_def Let_def unaccounted_def sum_quantums_def
        set_as_ready_def split: if_splits)
next
  case MutexLock
  with assms show ?thesis
    using unaccounted_mutex_lock_loop [of "mask_time_signal SIG_BLOCK s" r s']
    by (auto simp: uthread_mutex_lock_def Let_def split: if_splits)
next
  case MutexUnlock
  with assms(2) show ?thesis
    by (auto simp: uthread_mutex_unlock_def Let_def unaccounted_def sum_quantums_on_manager
        split: if_splits)
next
  case GetTid
  with assms(2) show ?thesis by (auto simp: uthread_get_tid_def)
next
  case GetTotalQuantums
  with assms(2) show ?thesis by (auto simp: uthread_get_total_quantums_def)
next
  case (GetQuantums tid)
  with assms(2) show ?thesis by (auto simp: uthread_get_quantums_def Let_def split: if_splits)
qed

lemma unaccounted_resume_thread:
  "wf_state s \<Longrightarrow> resume_thread s = Some s' \<Longrightarrow> unaccounted s' = unaccounted s"
proof (induction s rule: resume_thread.induct)
  case (1 s)
  let ?m = "threadsCollectionManager s"
  from wf_state_live(2) [OF "1.prems"(1)] "1.prems"(1)
  have nt: "jb_pc (env (get_current_thread ?m)) \<noteq> InTerminate"
    by (simp add: wf_state_def wf_manager_def get_current_thread_def)
  show ?case
  proof (cases "jb_pc (env (get_current_thread ?m))")
    case InMutexLock
    show ?thesis
    proof (cases "mutex_lock_loop s")
      case (Return r s1)
      with InMutexLock "1.prems" unaccounted_mutex_lock_loop [of s r s'] show ?thesis
        by (simp add: resume_thread.simps [of s])
    next
      case (Jumped s1)
      with "1.prems"(1) have "wf_state s1" and "unaccounted s1 = unaccounted s"
        using wf_mutex_lock_loop [of s 0 s1] unaccounted_mutex_lock_loop [of s 0 s1] by simp_all
      moreover from Jumped InMutexLock "1.prems"(2) have "resume_thread s1 = Some s'"
        by (simp add: resume_thread.simps [of s])
      ultimately show ?thesis using "1.IH" [OF InMutexLock Jumped] by simp
    next
      case (Exit c s1)
      with InMutexLock "1.prems" show ?thesis by (simp add: resume_thread.simps [of s])
    next
      case UB
      with InMutexLock "1.prems" show ?thesis by (simp add: resume_thread.simps [of s])
    qed
  qed (use "1.prems" nt in \<open>auto simp: resume_thread.simps [of s]\<close>)
qed

lemma unaccounted_step:
  assumes "wf_state s" and "step e s = Some s'"
  shows "unaccounted s' = unaccounted s + retired e s"
proof (cases e)
  case (Call c)
  show ?thesis
  proof (cases "call c s")
    case (Return r s1)
    with assms Call unaccounted_call [of s c r s'] show ?thesis by (simp add: settle_def)
  next
    case (Jumped s1)
    with assms(1) have "wf_state s1" and "unaccounted s1 = unaccounted s + retired (Call c) s"
      using wf_call [of s c 0 s1] unaccounted_call [of s c 0 s1] by simp_all
    moreover from Jumped assms(2) Call have "resume_thread s1 = Some s'"
      by (simp add: settle_def)
    ultimately show ?thesis using Call by (simp add: unaccounted_resume_thread)
  qed (use assms(2) Call in \<open>simp_all add: settle_def\<close>)
next
  case Tick
  let ?s1 = "s\<lparr>sigvtalrm_blocked := True\<rparr>"
  from assms(1) have wf1: "wf_state ?s1" by simp
  show ?thesis
  proof (cases "time_sig_handler ?s1")
    case (Return u s1)
    with wf1 have "unaccounted s1 = unaccounted s"
      using unaccounted_time_sig_handler [of ?s1 u s1] by simp
    with assms(2) Tick Return show ?thesis by (auto simp: deliver_tick_def split: if_splits)
  next
    case (Jumped s1)
    with wf1 have "wf_state s1" and "unaccounted s1 = unaccounted s"
      using wf_time_sig_handler [of ?s1 "()" s1] unaccounted_time_sig_handler [of ?s1 "()" s1]
      by simp_all
    with assms(2) Tick Jumped show ?thesis
      by (auto simp: deliver_tick_def unaccounted_resume_thread split: if_splits)
  qed (use assms(2) Tick in \<open>auto simp: deliver_tick_def split: if_splits\<close>)
qed

lemma unaccounted_run:
  "wf_state s \<Longrightarrow> run s es = Some s' \<Longrightarrow> unaccounted s' = unaccounted s + retired_in_run s es"
proof (induction es arbitrary: s)
  case Nil
  then show ?case by simp
next
  case (Cons e es)
  from Cons.prems(2) obtain s1 where s1: "step e s = Some s1" and r: "run s1 es = Some s'"
    by (auto split: option.splits)
  from Cons.prems(1) s1 have "wf_state s1" by (rule wf_step)
  from Cons.IH [OF this r] unaccounted_step [OF Cons.prems(1) s1] s1 show ?case by simp
qed

lemma unaccounted_init:
  assumes "uthread_init q (static_state N ss) = Return SUCCESS s0"
  shows "wf_state s0 \<and> unaccounted s0 = 0"
proof -
  from assms have s0: "s0 = (static_state N ss)\<lparr>total_quantums := 1\<rparr>"
    by (auto simp: uthread_init_def set_timer_def static_state_def split: if_splits)
  have "wf_state s0" unfolding s0 using wf_static_state [of N ss] by simp
  moreover have "sum_quantums s0 = 1"
    by (simp add: s0 sum_quantums_def quantum_sum_def static_state_def
        ThreadsCollectionManager_ctor_def get_thread_def Thread_default_def
        del: dom_threads case_threads)
  moreover have "total_quantums s0 = 1" by (simp add: s0)
  ultimately show ?thesis by (simp add: unaccounted_def)
qed


section \<open>Threads that have not run yet\<close>

lemma unscheduled_frame [simp]:
  "unscheduled tid (mask_time_signal how s) = unscheduled tid s"
  "unscheduled tid (sigprocmask how s) = unscheduled tid s"
  "unscheduled tid (landed s) = unscheduled tid s"
  "unscheduled tid (s\<lparr>sigvtalrm_blocked := b\<rparr>) = unscheduled tid s"
  "unscheduled tid (s\<lparr>total_quantums := n\<rparr>) = unscheduled tid s"
  "unscheduled tid (s\<lparr>mutex := mu\<rparr>) = unscheduled tid s"
  by (simp_all add: unscheduled_def)

lemma unscheduled_on_manager:
  "unscheduled tid (on_manager (set_as_ready i) s) = unscheduled tid s"
  "unscheduled tid (on_manager (block i) s) = unscheduled tid s"
  "unscheduled tid (on_manager (wait_for_mutex i) s) = unscheduled tid s"
  "unscheduled tid (on_manager advance_mutex_line s) = unscheduled tid s"
  by (simp_all add: unscheduled_def contains_live set_as_ready_def block_def wait_for_mutex_def
      advance_mutex_line_def Let_def)

lemma unscheduled_delete_thread:
  "unscheduled tid s \<Longrightarrow> unscheduled tid (delete_thread i s)"
  by (simp add: delete_thread_def Let_def unscheduled_on_manager)
     (auto simp: unscheduled_def contains_live on_manager_def terminate_def)

lemma unscheduled_switched:
  "unscheduled tid s \<Longrightarrow> curr_thread_id (threadsCollectionManager s) \<noteq> tid \<Longrightarrow>
   unscheduled tid (switched caller x rest s)"
  by (auto simp: unscheduled_def contains_live switched_def sigsetjmp_current_def set_thread_def
      Let_def)

lemma get_thread_not_live: "i \<notin> live m \<Longrightarrow> get_thread i m = Thread_default"
  unfolding live_def get_thread_def
  by (auto split: option.splits simp del: dom_threads case_threads)

lemma pending_incr:
  assumes "unscheduled tid s"
  shows "pending tid (landed (incr_current_quantums s))"
proof (cases "curr_thread_id (threadsCollectionManager s) = tid")
  case True
  have "env (get_current_thread (threadsCollectionManager (incr_current_quantums s)))
      = env (get_thread tid (threadsCollectionManager s))"
    using True by (simp add: get_current_thread_def incr_current_quantums_def set_thread_def Let_def)
  moreover have "jb_pc (env (get_thread tid (threadsCollectionManager s))) \<in> {EntryPoint, NoContext}"
  proof (cases "tid \<in> live (threadsCollectionManager s)")
    case True
    with assms show ?thesis by (simp add: unscheduled_def contains_live)
  next
    case False
    then show ?thesis by (simp add: get_thread_not_live Thread_default_def)
  qed
  ultimately show ?thesis using True by (simp add: pending_def)
next
  case False
  with assms have "unscheduled tid (incr_current_quantums s)"
    by (auto simp: unscheduled_def contains_live incr_current_quantums_def set_thread_def Let_def)
  with False show ?thesis by (simp add: pending_def)
qed

lemma pending_switch:
  assumes "switch_threads h caller s = Jumped s'"
    and "unscheduled tid s" and "curr_thread_id (threadsCollectionManager s) \<noteq> tid"
    and "\<And>u. unscheduled tid u \<Longrightarrow> unscheduled tid (h u)"
  shows "pending tid s'"
proof -
  from assms(1) obtain x rest where
    s': "s' = landed (incr_current_quantums (h (switched caller x rest s)))"
    by (auto simp: switch_threads_Jumped)
  from assms(2,3) have "unscheduled tid (switched caller x rest s)"
    by (rule unscheduled_switched)
  then have "unscheduled tid (h (switched caller x rest s))" by (rule assms(4))
  then show ?thesis unfolding s' by (rule pending_incr)
qed


lemma pending_mutex_lock_loop:
  assumes "unscheduled tid s" and "curr_thread_id (threadsCollectionManager s) \<noteq> tid"
  shows "mutex_lock_loop s = Return r s' \<Longrightarrow>
           unscheduled tid s' \<and> curr_thread_id (threadsCollectionManager s') \<noteq> tid"
    and "mutex_lock_loop s = Jumped s' \<Longrightarrow> pending tid s'"
proof -
  assume "mutex_lock_loop s = Return r s'"
  with assms show "unscheduled tid s' \<and> curr_thread_id (threadsCollectionManager s') \<noteq> tid"
    by (auto simp: mutex_lock_loop_def Let_def split: if_splits)
next
  assume "mutex_lock_loop s = Jumped s'"
  then have "switch_threads
       (on_manager (wait_for_mutex (curr_thread_id (threadsCollectionManager s))))
       InMutexLock s = (Jumped s' :: int outcome)"
    by (auto simp: mutex_lock_loop_def Let_def get_curr_id_def switch_threads_mid_quantum_def
        set_timer_def split: if_splits)
  then show "pending tid s'"
    using assms by (rule pending_switch) (simp add: unscheduled_on_manager)
qed

lemma pending_call:
  assumes u: "unscheduled tid s"
    and c: "curr_thread_id (threadsCollectionManager s) \<noteq> tid"
  shows "call a s = Return r s' \<Longrightarrow>
           unscheduled tid s' \<and> curr_thread_id (threadsCollectionManager s') \<noteq> tid"
    and "call a s = Jumped s' \<Longrightarrow> pending tid s'"
proof -
  let ?s1 = "mask_time_signal SIG_BLOCK s"
  have u1: "unscheduled tid ?s1" and c1: "curr_thread_id (threadsCollectionManager ?s1) \<noteq> tid"
    using u c by simp_all
  {
    assume r: "call a s = Return r s'"
    show "unscheduled tid s' \<and> curr_thread_id (threadsCollectionManager s') \<noteq> tid"
    proof (cases a)
      case Spawn
      with r u c show ?thesis
        by (auto simp: uthread_spawn_def create_thread_def Let_def unscheduled_def contains_live
            Thread_ctor_def split: if_splits)
    next
      case (Terminate i)
      with r u c show ?thesis
        by (auto simp: uthread_terminate_def Let_def unscheduled_delete_thread split: if_splits)
    next
      case (Block i)
      with r u c show ?thesis
        by (auto simp: uthread_block_def Let_def unscheduled_on_manager block_def
            split: if_splits)
    next
      case (Resume i)
      with r u c show ?thesis
        by (auto simp: uthread_resume_def resume_def Let_def unscheduled_def contains_live
            set_as_ready_def split: if_splits)
    next
      case MutexLock
      with r u1 c1 pending_mutex_lock_loop(1) [OF u1 c1, of r s'] show ?thesis
        by (auto simp: uthread_mutex_lock_def Let_def split: if_splits)
    next
      case MutexUnlock
      with r u c show ?thesis
        by (auto simp: uthread_mutex_unlock_def Let_def unscheduled_on_manager
            advance_mutex_line_def split: if_splits)
    next
      case GetTid
      with r u c show ?thesis by (auto simp: uthread_get_tid_def)
    next
      case GetTotalQuantums
      with r u c show ?thesis by (auto simp: uthread_get_total_quantums_def)
    next
      case (GetQuantums i)
      with r u c show ?thesis by (auto simp: uthread_get_quantums_def Let_def split: if_splits)
    qed
  next
    assume j: "call a s = Jumped s'"
    show "pending tid s'"
    proof (cases a)
      case (Terminate i)
      with j have "switch_threads (delete_thread i) InTerminate ?s1 = (Jumped s' :: int outcome)"
        by (auto simp: uthread_terminate_def Let_def switch_threads_mid_quantum_def set_timer_def
            split: if_splits)
      then show ?thesis using u1 c1 by (rule pending_switch) (rule unscheduled_delete_thread)
    next
      case (Block i)
      with j have "switch_threads (on_manager (block i)) InBlock ?s1 = (Jumped s' :: int outcome)"
        by (auto simp: uthread_block_def Let_def switch_threads_mid_quantum_def set_timer_def
            split: if_splits)
      then show ?thesis using u1 c1 by (rule pending_switch) (simp add: unscheduled_on_manager)
    next
      case MutexLock
      with j pending_mutex_lock_loop(2) [OF u1 c1, of s'] show ?thesis
        by (auto simp: uthread_mutex_lock_def Let_def split: if_splits)
    qed (use j in \<open>auto simp: uthread_spawn_def uthread_resume_def uthread_mutex_unlock_def
          uthread_get_tid_def uthread_get_total_quantums_def uthread_get_quantums_def Let_def
          split: prod.splits if_splits\<close>)
  }
qed

lemma unscheduled_resume_thread:
  "wf_state s \<Longrightarrow> pending tid s \<Longrightarrow> resume_thread s = Some s' \<Longrightarrow>
   curr_thread_id (threadsCollectionManager s') \<noteq> tid \<Longrightarrow> unscheduled tid s'"
proof (induction s rule: resume_thread.induct)
  case (1 s)
  let ?m = "threadsCollectionManager s"
  from wf_state_live(2) [OF "1.prems"(1)] "1.prems"(1)
  have nt: "jb_pc (env (get_current_thread ?m)) \<noteq> InTerminate"
    by (simp add: wf_state_def wf_manager_def get_current_thread_def)
  show ?case
  proof (cases "curr_thread_id ?m = tid")
    case True
    with "1.prems"(2) have "jb_pc (env (get_current_thread ?m)) \<in> {EntryPoint, NoContext}"
      by (simp add: pending_def)
    with "1.prems"(3,4) True show ?thesis by (auto simp: resume_thread.simps [of s])
  next
    case False
    with "1.prems"(2) have u: "unscheduled tid s" by (simp add: pending_def)
    show ?thesis
    proof (cases "jb_pc (env (get_current_thread ?m))")
      case InMutexLock
      show ?thesis
      proof (cases "mutex_lock_loop s")
        case (Return r s1)
        with InMutexLock "1.prems"(3) pending_mutex_lock_loop(1) [OF u False, of r s']
        show ?thesis by (simp add: resume_thread.simps [of s])
      next
        case (Jumped s1)
        with "1.prems"(1) have "wf_state s1" using wf_mutex_lock_loop [of s 0 s1] by simp
        moreover from Jumped have "pending tid s1"
          by (rule pending_mutex_lock_loop(2) [OF u False])
        moreover from Jumped InMutexLock "1.prems"(3) have "resume_thread s1 = Some s'"
          by (simp add: resume_thread.simps [of s])
        ultimately show ?thesis using "1.IH" [OF InMutexLock Jumped] "1.prems"(4) by simp
      next
        case (Exit c s1)
        with InMutexLock "1.prems" show ?thesis by (simp add: resume_thread.simps [of s])
      next
        case UB
        with InMutexLock "1.prems" show ?thesis by (simp add: resume_thread.simps [of s])
      qed
    qed (use "1.prems"(3) nt u in \<open>auto simp: resume_thread.simps [of s]\<close>)
  qed
qed

lemma unscheduled_step:
  assumes wf: "wf_state s" and u: "unscheduled tid s"
    and c: "curr_thread_id (threadsCollectionManager s) \<noteq> tid"
    and st: "step e s = Some s'"
    and c': "curr_thread_id (threadsCollectionManager s') \<noteq> tid"
  shows "unscheduled tid s'"
proof (cases e)
  case (Call a)
  show ?thesis
  proof (cases "call a s")
    case (Return r s1)
    with st Call pending_call(1) [OF u c, of a r s'] show ?thesis by (simp add: settle_def)
  next
    case (Jumped s1)
    with wf have "wf_state s1" using wf_call [of s a 0 s1] by simp
    moreover from Jumped have "pending tid s1" by (rule pending_call(2) [OF u c])
    moreover from Jumped st Call have "resume_thread s1 = Some s'" by (simp add: settle_def)
    ultimately show ?thesis using c' by (rule unscheduled_resume_thread)
  qed (use st Call in \<open>simp_all add: settle_def\<close>)
next
  case Tick
  let ?s1 = "s\<lparr>sigvtalrm_blocked := True\<rparr>"
  from wf have wf1: "wf_state ?s1" by simp
  from u c have u1: "unscheduled tid ?s1" and c1: "curr_thread_id (threadsCollectionManager ?s1) \<noteq> tid"
    by simp_all
  show ?thesis
  proof (cases "time_sig_handler ?s1")
    case (Return v s1)
    then have "s1 = incr_current_quantums (?s1\<lparr>total_quantums := total_quantums ?s1 + 1\<rparr>)"
      by (auto simp: time_sig_handler_def Let_def split: if_splits)
    with u c have "unscheduled tid s1"
      by (auto simp: unscheduled_def contains_live incr_current_quantums_def set_thread_def Let_def)
    with st Tick Return show ?thesis by (auto simp: deliver_tick_def split: if_splits)
  next
    case (Jumped s1)
    with wf1 have "wf_state s1" using wf_time_sig_handler [of ?s1 "()" s1] by simp
    moreover from Jumped have
      "switch_threads (on_manager (set_as_ready (curr_thread_id (threadsCollectionManager ?s1))))
         InTimeHandler ?s1 = (Jumped s1 :: unit outcome)"
      by (auto simp: time_sig_handler_def Let_def get_curr_id_def split: if_splits)
    then have "pending tid s1"
      using u1 c1 by (rule pending_switch) (simp add: unscheduled_on_manager)
    moreover from Jumped st Tick have "resume_thread s1 = Some s'"
      by (auto simp: deliver_tick_def split: if_splits)
    ultimately show ?thesis using c' by (rule unscheduled_resume_thread)
  qed (use st Tick in \<open>auto simp: deliver_tick_def split: if_splits\<close>)
qed

lemma unscheduled_run_avoiding:
  "wf_state s \<Longrightarrow> unscheduled tid s \<Longrightarrow> curr_thread_id (threadsCollectionManager s) \<noteq> tid \<Longrightarrow>
   run_avoiding tid s es = Some s' \<Longrightarrow> unscheduled tid s'"
proof (induction es arbitrary: s)
  case Nil
  then show ?case by simp
next
  case (Cons e es)
  from Cons.prems(4) obtain s1 where s1: "step e s = Some s1"
    and c1: "curr_thread_id (threadsCollectionManager s1) \<noteq> tid"
    and r: "run_avoiding tid s1 es = Some s'"
    by (auto simp: get_curr_id_def split: option.splits if_splits)
  from Cons.prems(1) s1 have "wf_state s1" by (rule wf_step)
  moreover from Cons.prems(1,2,3) s1 c1 have "unscheduled tid s1" by (rule unscheduled_step)
  ultimately show ?case using c1 r by (rule Cons.IH)
qed


text \<open>The same when \<open>uthread_spawn\<close> may come in pieces, from any state.\<close>

lemma unscheduled_resume_thread_in:
  "pending tid s \<Longrightarrow> resume_thread_in s = Some (s', a) \<Longrightarrow>
   curr_thread_id (threadsCollectionManager s') \<noteq> tid \<Longrightarrow> unscheduled tid s'"
proof (induction s rule: resume_thread_in.induct)
  case (1 s)
  let ?m = "threadsCollectionManager s"
  show ?case
  proof (cases "curr_thread_id ?m = tid")
    case True
    with "1.prems"(1) have "jb_pc (env (get_current_thread ?m)) \<in> {EntryPoint, NoContext}"
      by (simp add: pending_def)
    with "1.prems"(2,3) True show ?thesis by (auto simp: resume_thread_in.simps [of s])
  next
    case False
    with "1.prems"(1) have u: "unscheduled tid s" by (simp add: pending_def)
    show ?thesis
    proof (cases "jb_pc (env (get_current_thread ?m))")
      case InMutexLock
      show ?thesis
      proof (cases "mutex_lock_loop s")
        case (Return r s1)
        with InMutexLock "1.prems"(2) pending_mutex_lock_loop(1) [OF u False, of r s']
        show ?thesis by (simp add: resume_thread_in.simps [of s])
      next
        case (Jumped s1)
        then have "pending tid s1"
          by (rule pending_mutex_lock_loop(2) [OF u False])
        moreover from Jumped InMutexLock "1.prems"(2) have "resume_thread_in s1 = Some (s', a)"
          by (simp add: resume_thread_in.simps [of s])
        ultimately show ?thesis using "1.IH" [OF InMutexLock Jumped] "1.prems"(3) by simp
      next
        case (Exit c s1)
        with InMutexLock "1.prems" show ?thesis by (simp add: resume_thread_in.simps [of s])
      next
        case UB
        with InMutexLock "1.prems" show ?thesis by (simp add: resume_thread_in.simps [of s])
      qed
    qed (use "1.prems"(2) u in
          \<open>auto simp: resume_thread_in.simps [of s] unscheduled_delete_thread\<close>)
  qed
qed

lemma unscheduled_spawn_step:
  assumes "unscheduled tid s" and "spawn_step a s = Some (s', a')"
  shows "unscheduled tid s'
    \<and> curr_thread_id (threadsCollectionManager s') = curr_thread_id (threadsCollectionManager s)"
proof (cases a)
  case UserCode
  with assms show ?thesis by (auto simp: spawn_step_def)
next
  case (CreateThread pc)
  with assms show ?thesis
    by (cases pc)
       (auto simp: spawn_step_def create_thread_statement_def unscheduled_def contains_live
          Thread_ctor_def split: if_splits)
qed

lemma unscheduled_fine_step:
  assumes u: "unscheduled tid s"
    and c: "curr_thread_id (threadsCollectionManager s) \<noteq> tid"
    and st: "fine_step e (s, a) = Some (s', a')"
    and c': "curr_thread_id (threadsCollectionManager s') \<noteq> tid"
  shows "unscheduled tid s'"
proof (cases e)
  case SpawnStep
  with st unscheduled_spawn_step [OF u, of a s' a'] show ?thesis by simp
next
  case (Whole e')
  show ?thesis
  proof (cases e')
    case (Call b)
    with st Whole have st': "settle_in (call b s) = Some (s', a')"
      by (simp split: if_splits)
    show ?thesis
    proof (cases "call b s")
      case (Return r s1)
      with st' pending_call(1) [OF u c, of b r s'] show ?thesis by (simp add: settle_in_def)
    next
      case (Jumped s1)
      then have "pending tid s1" by (rule pending_call(2) [OF u c])
      moreover from Jumped st' have "resume_thread_in s1 = Some (s', a')"
        by (simp add: settle_in_def)
      ultimately show ?thesis using c' by (rule unscheduled_resume_thread_in)
    qed (use st' in \<open>simp_all add: settle_in_def\<close>)
  next
    case Tick
    let ?s1 = "s\<lparr>sigvtalrm_blocked := True\<rparr>"
    from u c have u1: "unscheduled tid ?s1"
      and c1: "curr_thread_id (threadsCollectionManager ?s1) \<noteq> tid"
      by simp_all
    from st Whole Tick have st': "deliver_tick_in a s = Some (s', a')" by simp
    show ?thesis
    proof (cases "time_sig_handler_in a ?s1")
      case (Return v s1)
      then have "s1 = incr_current_quantums (?s1\<lparr>total_quantums := total_quantums ?s1 + 1\<rparr>)"
        by (auto simp: time_sig_handler_in_def Let_def split: if_splits)
      with u c have "unscheduled tid s1"
        by (auto simp: unscheduled_def contains_live incr_current_quantums_def set_thread_def Let_def)
      with st' Return show ?thesis by (auto simp: deliver_tick_in_def split: if_splits)
    next
      case (Jumped s1)
      then have
        "switch_threads (on_manager (set_as_ready (curr_thread_id (threadsCollectionManager ?s1))))
           (interrupted_context a) ?s1 = (Jumped s1 :: unit outcome)"
        by (auto simp: time_sig_handler_in_def Let_def get_curr_id_def split: if_splits)
      then have "pending tid s1"
        using u1 c1 by (rule pending_switch) (simp add: unscheduled_on_manager)
      moreover from Jumped st' have "resume_thread_in s1 = Some (s', a')"
        by (auto simp: deliver_tick_in_def split: if_splits)
      ultimately show ?thesis using c' by (rule unscheduled_resume_thread_in)
    qed (use st' in \<open>auto simp: deliver_tick_in_def split: if_splits\<close>)
  qed
qed

lemma unscheduled_fine_run_avoiding:
  "unscheduled tid s \<Longrightarrow> curr_thread_id (threadsCollectionManager s) \<noteq> tid \<Longrightarrow>
   fine_run_avoiding tid (s, a) es = Some (s', a') \<Longrightarrow> unscheduled tid s'"
proof (induction es arbitrary: s a)
  case Nil
  then show ?case by simp
next
  case (Cons e es)
  from Cons.prems(3) obtain s1 a1 where s1: "fine_step e (s, a) = Some (s1, a1)"
    and c1: "curr_thread_id (threadsCollectionManager s1) \<noteq> tid"
    and r: "fine_run_avoiding tid (s1, a1) es = Some (s', a')"
    by (auto simp: get_curr_id_def split: option.splits if_splits)
  from Cons.prems(1,2) s1 c1 have "unscheduled tid s1" by (rule unscheduled_fine_step)
  then show ?case using c1 r by (rule Cons.IH)
qed


section \<open>The two kinds of execution\<close>

text \<open>
  The executions of \<open>run\<close> are those executions of \<open>fine_run\<close> in which every event
  is a whole call or a tick that finds the running thread in its own code: no
  context is ever saved inside \<open>create_thread\<close>, and the two definitions go through
  the same states.
\<close>

lemma none_in_create_thread_frame [simp]:
  "none_in_create_thread (mask_time_signal how s) = none_in_create_thread s"
  "none_in_create_thread (sigprocmask how s) = none_in_create_thread s"
  "none_in_create_thread (set_timer s) = none_in_create_thread s"
  "none_in_create_thread (s\<lparr>sigvtalrm_blocked := b\<rparr>) = none_in_create_thread s"
  "none_in_create_thread (s\<lparr>total_quantums := n\<rparr>) = none_in_create_thread s"
  "none_in_create_thread (s\<lparr>mutex := mu\<rparr>) = none_in_create_thread s"
  "none_in_create_thread (landed s) = none_in_create_thread s"
  "none_in_create_thread (on_manager (set_as_ready i) s) = none_in_create_thread s"
  "none_in_create_thread (on_manager (block i) s) = none_in_create_thread s"
  "none_in_create_thread (on_manager (wait_for_mutex i) s) = none_in_create_thread s"
  "none_in_create_thread (on_manager advance_mutex_line s) = none_in_create_thread s"
  by (simp_all add: none_in_create_thread_def mask_time_signal_def sigprocmask_def set_timer_def
      landed_def on_manager_def set_as_ready_def block_def wait_for_mutex_def
      advance_mutex_line_def Let_def)

lemma none_in_create_thread_incr:
  "none_in_create_thread s \<Longrightarrow> none_in_create_thread (incr_current_quantums s)"
  by (simp add: none_in_create_thread_def incr_current_quantums_def set_thread_def Let_def)

lemma none_in_create_thread_delete:
  "none_in_create_thread s \<Longrightarrow> none_in_create_thread (delete_thread tid s)"
  by (simp add: none_in_create_thread_def delete_thread_def on_manager_def terminate_def
      advance_mutex_line_def Thread_default_def Let_def)

lemma none_in_create_thread_switched:
  "none_in_create_thread s \<Longrightarrow> \<forall>pc. caller \<noteq> InCreateThread pc \<Longrightarrow>
   none_in_create_thread (switched caller x rest s)"
  by (simp add: none_in_create_thread_def switched_def sigsetjmp_current_def set_thread_def Let_def)

lemma none_in_create_thread_switch:
  assumes "none_in_create_thread s" and "switch_threads_mid_quantum h caller s = Jumped s'"
    and "\<forall>pc. caller \<noteq> InCreateThread pc"
    and "\<And>u. none_in_create_thread u \<Longrightarrow> none_in_create_thread (h u)"
  shows "none_in_create_thread s'"
proof -
  from assms(2) obtain x rest where
    s': "s' = landed (incr_current_quantums (h (switched caller x rest s)))"
    by (auto simp: switch_threads_mid_quantum_Jumped)
  from assms(1,3) have "none_in_create_thread (switched caller x rest s)"
    by (rule none_in_create_thread_switched)
  then show ?thesis by (simp add: s' none_in_create_thread_incr assms(4))
qed

lemma none_in_create_thread_handler:
  assumes "none_in_create_thread s"
    and "time_sig_handler s = Return u s' \<or> time_sig_handler s = Jumped s'"
  shows "none_in_create_thread s'"
proof (cases "is_someone_waiting (threadsCollectionManager s)")
  case False
  with assms show ?thesis
    by (auto simp: time_sig_handler_def none_in_create_thread_incr)
next
  case True
  with assms(2) have
    "switch_threads_mid_quantum
       (on_manager (set_as_ready (curr_thread_id (threadsCollectionManager s))))
       InTimeHandler s = (Jumped s' :: unit outcome)"
    by (simp add: time_sig_handler_def Let_def get_curr_id_def switch_threads_mid_quantum_def
        set_timer_def)
  with assms(1) show ?thesis
    by (rule none_in_create_thread_switch) simp_all
qed

lemma none_in_create_thread_lock_loop:
  assumes "none_in_create_thread s"
    and "mutex_lock_loop s = Return r s' \<or> mutex_lock_loop s = Jumped s'"
  shows "none_in_create_thread s'"
proof (cases "locked (mutex s)")
  case False
  with assms show ?thesis by (auto simp: mutex_lock_loop_def)
next
  case True
  with assms(2) have
    "switch_threads_mid_quantum
       (on_manager (wait_for_mutex (curr_thread_id (threadsCollectionManager s))))
       InMutexLock s = (Jumped s' :: int outcome)"
    by (simp add: mutex_lock_loop_def Let_def get_curr_id_def)
  with assms(1) show ?thesis
    by (rule none_in_create_thread_switch) simp_all
qed

lemma none_in_create_thread_call:
  assumes "none_in_create_thread s" and "call c s = Return r s' \<or> call c s = Jumped s'"
  shows "none_in_create_thread s'"
proof (cases c)
  case Spawn
  with assms show ?thesis
    by (auto simp: uthread_spawn_def create_thread_def none_in_create_thread_def Thread_ctor_def
        Let_def split: if_splits)
next
  case (Terminate tid)
  show ?thesis
  proof (cases "uthread_terminate tid s = Jumped s'")
    case True
    then have "switch_threads_mid_quantum (delete_thread tid) InTerminate
        (mask_time_signal SIG_BLOCK s) = (Jumped s' :: int outcome)"
      by (auto simp: uthread_terminate_def Let_def split: if_splits)
    with assms(1) show ?thesis
      using none_in_create_thread_switch
        [of "mask_time_signal SIG_BLOCK s" "delete_thread tid" InTerminate s']
      by (simp add: none_in_create_thread_delete)
  next
    case False
    with assms Terminate show ?thesis
      by (auto simp: uthread_terminate_def Let_def none_in_create_thread_delete split: if_splits)
  qed
next
  case (Block tid)
  show ?thesis
  proof (cases "uthread_block tid s = Jumped s'")
    case True
    then have "switch_threads_mid_quantum (on_manager (block tid)) InBlock
        (mask_time_signal SIG_BLOCK s) = (Jumped s' :: int outcome)"
      by (auto simp: uthread_block_def Let_def split: if_splits)
    with assms(1) show ?thesis
      using none_in_create_thread_switch
        [of "mask_time_signal SIG_BLOCK s" "on_manager (block tid)" InBlock s']
      by simp
  next
    case False
    with assms Block show ?thesis
      by (auto simp: uthread_block_def Let_def split: if_splits)
  qed
next
  case (Resume tid)
  with assms show ?thesis
    by (auto simp: uthread_resume_def resume_def none_in_create_thread_def set_as_ready_def
        Let_def split: if_splits)
next
  case MutexLock
  with assms show ?thesis
    using none_in_create_thread_lock_loop [of "mask_time_signal SIG_BLOCK s" r s']
    by (auto simp: uthread_mutex_lock_def Let_def split: if_splits)
next
  case MutexUnlock
  with assms show ?thesis
    by (auto simp: uthread_mutex_unlock_def Let_def split: if_splits)
next
  case GetTid
  with assms show ?thesis by (auto simp: uthread_get_tid_def)
next
  case GetTotalQuantums
  with assms show ?thesis by (auto simp: uthread_get_total_quantums_def)
next
  case (GetQuantums tid)
  with assms show ?thesis
    by (auto simp: uthread_get_quantums_def Let_def split: if_splits)
qed

text \<open>
  As long as no saved context leads back into \<open>create_thread\<close>, the thread that a jump
  lands in ends up in its own code, in the state \<open>resume_thread\<close> gives.
\<close>

lemma resume_thread_in_eq:
  "none_in_create_thread s \<Longrightarrow>
   resume_thread_in s = map_option (\<lambda>s'. (s', UserCode)) (resume_thread s)"
proof (induction s rule: resume_thread.induct)
  case (1 s)
  let ?m = "threadsCollectionManager s"
  from "1.prems" have nc: "\<And>pc. jb_pc (env (get_current_thread ?m)) \<noteq> InCreateThread pc"
    by (simp add: none_in_create_thread_def get_current_thread_def)
  show ?case
  proof (cases "jb_pc (env (get_current_thread ?m))")
    case InMutexLock
    show ?thesis
    proof (cases "mutex_lock_loop s")
      case (Jumped s1)
      with "1.prems" have "none_in_create_thread s1"
        using none_in_create_thread_lock_loop [of s 0 s1] by simp
      with "1.IH" [OF InMutexLock Jumped] InMutexLock Jumped show ?thesis
        by (simp add: resume_thread.simps [of s] resume_thread_in.simps [of s])
    qed (use InMutexLock in \<open>simp_all add: resume_thread.simps [of s] resume_thread_in.simps [of s]\<close>)
  qed (use nc in \<open>simp_all add: resume_thread.simps [of s] resume_thread_in.simps [of s]\<close>)
qed

lemma none_in_create_thread_resume:
  "none_in_create_thread s \<Longrightarrow> resume_thread s = Some s' \<Longrightarrow> none_in_create_thread s'"
proof (induction s rule: resume_thread.induct)
  case (1 s)
  let ?m = "threadsCollectionManager s"
  show ?case
  proof (cases "jb_pc (env (get_current_thread ?m))")
    case InMutexLock
    show ?thesis
    proof (cases "mutex_lock_loop s")
      case (Return r s1)
      with InMutexLock "1.prems" none_in_create_thread_lock_loop [of s r s'] show ?thesis
        by (simp add: resume_thread.simps [of s])
    next
      case (Jumped s1)
      with "1.prems"(1) have "none_in_create_thread s1"
        using none_in_create_thread_lock_loop [of s 0 s1] by simp
      moreover from Jumped InMutexLock "1.prems"(2) have "resume_thread s1 = Some s'"
        by (simp add: resume_thread.simps [of s])
      ultimately show ?thesis using "1.IH" [OF InMutexLock Jumped] by simp
    next
      case (Exit c s1)
      with InMutexLock "1.prems" show ?thesis by (simp add: resume_thread.simps [of s])
    next
      case UB
      with InMutexLock "1.prems" show ?thesis by (simp add: resume_thread.simps [of s])
    qed
  qed (use "1.prems" in \<open>auto simp: resume_thread.simps [of s] none_in_create_thread_delete\<close>)
qed

lemma time_sig_handler_in_UserCode: "time_sig_handler_in UserCode s = time_sig_handler s"
  by (simp add: time_sig_handler_in_def time_sig_handler_def interrupted_context_def)

lemma none_in_create_thread_step:
  assumes "none_in_create_thread s" and "step e s = Some s'"
  shows "none_in_create_thread s'"
proof (cases e)
  case (Call c)
  with assms show ?thesis
    by (cases "call c s")
       (auto simp: settle_def dest: none_in_create_thread_call none_in_create_thread_resume)
next
  case Tick
  let ?s1 = "s\<lparr>sigvtalrm_blocked := True\<rparr>"
  from assms(1) have n1: "none_in_create_thread ?s1" by simp
  show ?thesis
  proof (cases "time_sig_handler ?s1")
    case (Return u s1)
    with n1 have "none_in_create_thread s1"
      using none_in_create_thread_handler [of ?s1 u s1] by simp
    with assms(2) Tick Return show ?thesis by (auto simp: deliver_tick_def split: if_splits)
  next
    case (Jumped s1)
    with n1 have "none_in_create_thread s1"
      using none_in_create_thread_handler [of ?s1 "()" s1] by simp
    with assms(2) Tick Jumped show ?thesis
      by (auto simp: deliver_tick_def split: if_splits dest: none_in_create_thread_resume)
  qed (use assms(2) Tick in \<open>auto simp: deliver_tick_def split: if_splits\<close>)
qed

text \<open>
  An event that is a whole call, or a tick while the running thread is in its own
  code, is the same step in both kinds of execution.
\<close>

lemma fine_step_Whole:
  assumes "none_in_create_thread s"
  shows "fine_step (Whole e) (s, UserCode) = map_option (\<lambda>s'. (s', UserCode)) (step e s)"
proof (cases e)
  case (Call c)
  show ?thesis
  proof (cases "call c s")
    case (Jumped s1)
    with assms have "none_in_create_thread s1"
      using none_in_create_thread_call [of s c 0 s1] by simp
    with Call Jumped show ?thesis by (simp add: settle_in_def settle_def resume_thread_in_eq)
  qed (use Call in \<open>simp_all add: settle_in_def settle_def\<close>)
next
  case Tick
  let ?s1 = "s\<lparr>sigvtalrm_blocked := True\<rparr>"
  from assms have n1: "none_in_create_thread ?s1" by simp
  show ?thesis
  proof (cases "time_sig_handler ?s1")
    case (Jumped s1)
    with n1 have "none_in_create_thread s1"
      using none_in_create_thread_handler [of ?s1 "()" s1] by simp
    with Tick Jumped show ?thesis
      by (simp add: deliver_tick_in_def deliver_tick_def time_sig_handler_in_UserCode
          resume_thread_in_eq)
  qed (use Tick in \<open>simp_all add: deliver_tick_in_def deliver_tick_def time_sig_handler_in_UserCode\<close>)
qed

lemma fine_run_Whole:
  "none_in_create_thread s \<Longrightarrow>
   fine_run (s, UserCode) (map Whole es) = map_option (\<lambda>s'. (s', UserCode)) (run s es)"
proof (induction es arbitrary: s)
  case Nil
  show ?case by simp
next
  case (Cons e es)
  show ?case
  proof (cases "step e s")
    case None
    with Cons.prems show ?thesis by (simp add: fine_step_Whole)
  next
    case (Some s1)
    with Cons.prems have "none_in_create_thread s1" by (simp add: none_in_create_thread_step)
    with Cons.IH [of s1] Some Cons.prems show ?thesis by (simp add: fine_step_Whole)
  qed
qed

lemma none_in_create_thread_init:
  "uthread_init q (static_state N ss) = Return r s0 \<Longrightarrow> none_in_create_thread s0"
  by (auto simp: uthread_init_def static_state_def ThreadsCollectionManager_ctor_def
      none_in_create_thread_def get_thread_def Thread_default_def set_timer_def
      simp del: case_threads split: if_splits)

lemma fine_run_library_Whole:
  "fine_run_library N ss q (map Whole es)
     = map_option (\<lambda>s. (s, UserCode)) (run_library N ss q es)"
proof (cases "uthread_init q (static_state N ss)")
  case (Return r s0)
  then have "none_in_create_thread s0" by (rule none_in_create_thread_init)
  with Return show ?thesis by (simp add: fine_run_library_def run_library_def fine_run_Whole)
qed (simp_all add: fine_run_library_def run_library_def)

text \<open>
  The pieces of \<open>uthread_spawn\<close>, run one after the other with no tick between them,
  are the whole call.
\<close>

lemma spawn_steps_are_uthread_spawn:
  "fine_run (s, UserCode) [SpawnStep, SpawnStep, SpawnStep, SpawnStep, SpawnStep]
     = fine_step (Whole (Call Spawn)) (s, UserCode)"
  by (simp add: spawn_step_def create_thread_statement_def settle_in_def uthread_spawn_def
      create_thread_def Let_def)

lemma retired_in_fine_run_Whole:
  "none_in_create_thread s \<Longrightarrow>
   retired_in_fine_run (s, UserCode) (map Whole es) = retired_in_run s es"
proof (induction es arbitrary: s)
  case Nil
  show ?case by simp
next
  case (Cons e es)
  show ?case
  proof (cases "step e s")
    case None
    with Cons.prems show ?thesis by (simp add: fine_step_Whole)
  next
    case (Some s1)
    with Cons.prems have "none_in_create_thread s1" by (simp add: none_in_create_thread_step)
    with Cons.IH [of s1] Some Cons.prems show ?thesis by (simp add: fine_step_Whole)
  qed
qed


section \<open>Example executions\<close>

text \<open>
  Each example state is the state that a short execution reaches.
  \<open>exec_defs\<close> unfolds the whole library, for evaluation.
\<close>

lemmas exec_defs =
  run_library_def uthread_init_def static_state_def ThreadsCollectionManager_ctor_def
  fill_available_ids.simps settle_def deliver_tick_def
  uthread_spawn_def uthread_terminate_def uthread_block_def uthread_resume_def
  uthread_mutex_lock_def uthread_mutex_unlock_def uthread_get_tid_def
  uthread_get_total_quantums_def uthread_get_quantums_def mutex_lock_loop_def
  time_sig_handler_def switch_threads_mid_quantum_def switch_threads_def
  siglongjmp_current_def incr_current_quantums_def sigsetjmp_current_def
  delete_thread_def on_manager_def mask_time_signal_def sigprocmask_def set_timer_def
  create_thread_def contains_def terminate_def set_as_ready_def get_curr_id_def
  wait_for_mutex_def advance_mutex_line_def resume_def set_next_thread_as_running_def
  get_thread_def set_thread_def get_current_thread_def is_someone_waiting_def block_def
  Thread_ctor_def Thread_default_def resume_thread.simps Let_def insert_Diff_if

lemma run_started: "run_library 4 4096 100000 [] = Some started"
  by (simp add: exec_defs started_def del: dom_threads case_threads)

lemma init_started: "uthread_init 100000 (static_state 4 4096) = Return SUCCESS started"
  by (simp add: exec_defs started_def del: dom_threads case_threads)

lemma run_one_spawned: "run_library 4 4096 100000 [Call Spawn] = Some one_spawned"
  by (simp add: exec_defs started_def one_spawned_def del: dom_threads case_threads)

lemma run_main_holds: "run_library 4 4096 100000 [Call MutexLock] = Some main_holds"
  by (simp add: exec_defs started_def main_holds_def del: dom_threads case_threads)

lemma run_thread1_holds:
  "run_library 4 4096 100000 [Call Spawn, Tick, Call MutexLock] = Some thread1_holds"
  by (simp add: exec_defs thread1_holds_def del: dom_threads case_threads)

lemma run_main_runs_thread1_holds:
  "run_library 4 4096 100000 [Call Spawn, Tick, Call MutexLock, Tick]
     = Some main_runs_thread1_holds"
  by (simp add: exec_defs main_runs_thread1_holds_def fun_upd_twist del: dom_threads case_threads)

lemma run_alone: "run_library 1 4096 100000 [] = Some alone"
  by (simp add: exec_defs started_def alone_def del: dom_threads case_threads)

lemma run_one_blocked:
  "run_library 4 4096 100000 [Call Spawn, Call (Block 1)] = Some one_blocked"
  by (simp add: exec_defs started_def one_spawned_def one_blocked_def
      del: dom_threads case_threads)

lemma run_blocked_waiter:
  "run_library 4 4096 100000
     [Call Spawn, Call Spawn, Tick, Call MutexLock, Tick, Call MutexLock, Call (Block 2)]
   = Some blocked_waiter"
  by (simp add: exec_defs blocked_waiter_def fun_upd_twist del: dom_threads case_threads)

lemma run_back_in_block:
  "map_option (\<lambda>s. time_sig_handler (s\<lparr>sigvtalrm_blocked := True\<rparr>))
     (run_library 4 4096 100000 [Call Spawn, Tick, Call (Block 1), Call (Resume 1)])
   = Some (Jumped back_in_block)"
  by (simp add: exec_defs back_in_block_def fun_upd_twist del: dom_threads case_threads)

lemma run_holder_runs_alone:
  "run_library 4 4096 100000 [Call Spawn, Tick, Call MutexLock, Tick, Call MutexLock]
     = Some holder_runs_alone"
  by (simp add: exec_defs holder_runs_alone_def fun_upd_twist del: dom_threads case_threads)

text \<open>
  Thread 1 takes the mutex, the main thread asks for it and waits, thread 1 releases
  it; at the next tick the main thread is back in the loop of \<open>uthread_mutex_lock\<close>,
  finds the mutex free and takes it.
\<close>

lemma run_contended_lock:
  "map_option (\<lambda>s. (get_curr_id (threadsCollectionManager s), mutex s,
                    waiting_fot_mutex (threadsCollectionManager s),
                    readyQueue (threadsCollectionManager s), sigvtalrm_blocked s))
     (run_library 4 4096 100000
        [Call Spawn, Tick, Call MutexLock, Tick, Call MutexLock, Call MutexUnlock, Tick])
   = Some (0, \<lparr>locked = True, locking_thread = 0\<rparr>, {}, [1], False)"
  by (simp add: exec_defs del: dom_threads case_threads)

text \<open>
  Threads 0 and 2 have been admitted to the ready queue by two releases, but thread 1
  has taken the mutex again. At the tick thread 0 is resumed in the loop, finds the
  mutex locked and switches to thread 2, which does the same and switches back to
  thread 1: three switches, and three quantums counted, in one tick.
\<close>

lemma run_lock_retry_cascade:
  "map_option (\<lambda>s. (get_curr_id (threadsCollectionManager s), mutex s,
                    waiting_fot_mutex (threadsCollectionManager s),
                    readyQueue (threadsCollectionManager s), total_quantums s))
     (run_library 4 4096 100000
        [Call Spawn, Call Spawn, Tick, Call MutexLock, Tick, Call MutexLock, Call MutexLock,
         Call MutexUnlock, Call MutexLock, Call MutexUnlock, Call MutexLock, Tick])
   = Some (1, \<lparr>locked = True, locking_thread = 1\<rparr>, {2, 0}, [], 8)"
  by (simp add: exec_defs del: dom_threads case_threads)


text \<open>
  Executions in which a tick arrives inside \<open>uthread_spawn\<close>. In the first one the
  main thread has spawned thread 1, calls \<open>uthread_spawn\<close> again and is preempted
  when it has read \<open>new_id = 2\<close> and not yet erased it. Thread 1 spawns a thread and
  is given the id 2 as well. Thread 2 runs for a quantum. When the main thread goes
  on, it erases the least free id, which now is 3, and stores a new record under the
  id 2: the counter of thread 2 is 0 again, the id 2 is in the ready queue twice and
  the id 3 is neither free nor in use. No thread was terminated, and the counters
  add up to 5 while \<open>total_quantums\<close> is 6.
\<close>

lemmas fine_defs =
  exec_defs fine_run_library_def spawn_step_def create_thread_statement_def
  time_sig_handler_in_def interrupted_context_def resume_thread_in.simps settle_in_def
  deliver_tick_in_def

lemma fine_run_stale_id:
  "map_option
     (\<lambda>(s, a). (a, sum_quantums s, total_quantums s, readyQueue (threadsCollectionManager s),
                 available_ids (threadsCollectionManager s),
                 dom (threads (threadsCollectionManager s)),
                 retired_in_fine_run (started, UserCode)
                   [Whole (Call Spawn), SpawnStep, SpawnStep, Whole Tick, Whole (Call Spawn),
                    Whole Tick, Whole Tick, Whole Tick, Whole Tick,
                    SpawnStep, SpawnStep, SpawnStep]))
     (fine_run_library 4 4096 100000
        [Whole (Call Spawn), SpawnStep, SpawnStep, Whole Tick, Whole (Call Spawn),
         Whole Tick, Whole Tick, Whole Tick, Whole Tick,
         SpawnStep, SpawnStep, SpawnStep])
   = Some (UserCode, 5, 6, [2, 1, 2], {}, {2, 0, 1}, 0)"
  by (simp add: fine_defs started_def sum_quantums_def quantum_sum_def
      del: dom_threads case_threads)

text \<open>
  In the second one the main thread is preempted when it has stored the record of
  thread 2 and not yet appended the id to the ready queue. Thread 1 blocks thread 2.
  When the main thread goes on, it appends the id 2 to the ready queue: thread 2 is
  ready and blocked.
\<close>

lemma fine_run_ready_and_blocked:
  "map_option
     (\<lambda>(s, a). (a, curr_thread_id (threadsCollectionManager s),
                 readyQueue (threadsCollectionManager s), blocked (threadsCollectionManager s)))
     (fine_run_library 4 4096 100000
        [Whole (Call Spawn), SpawnStep, SpawnStep, SpawnStep, SpawnStep, Whole Tick,
         Whole (Call (Block 2)), Whole Tick, SpawnStep])
   = Some (UserCode, 0, [1, 2], {2})"
  by (simp add: fine_defs del: dom_threads case_threads)


section \<open>The claims\<close>

subsection \<open>C1: the quantums of the threads and the total\<close>

text \<open>
  Claim C1, amended. Take an execution in which the timer never fires while
  \<open>uthread_spawn\<close> runs (which does not block the signal): after \<open>uthread_init\<close>,
  every event is a whole call or a tick between two calls. In every state that such
  an execution reaches, the sum of the quantums counters of the live threads, plus
  the counters that the threads terminated so far had when they were terminated,
  equals \<open>total_quantums\<close>, in \<open>size_t\<close> arithmetic. So the sum over the live threads
  equals \<open>total_quantums\<close> as long as every thread that was terminated had never run.
\<close>

theorem quantums_accounting:
  assumes "uthread_init q (static_state N ss) = Return SUCCESS s0"
    and "fine_run (s0, UserCode) (map Whole es) = Some (s, a)"
  shows "sum_quantums s + retired_in_fine_run (s0, UserCode) (map Whole es) = total_quantums s"
proof -
  from assms(1) have n: "none_in_create_thread s0" by (rule none_in_create_thread_init)
  with assms(2) have r: "run s0 es = Some s" by (auto simp: fine_run_Whole)
  from unaccounted_init [OF assms(1)] have "wf_state s0" and "unaccounted s0 = 0" by simp_all
  with unaccounted_run [OF _ r] have "unaccounted s = retired_in_run s0 es" by simp
  with n show ?thesis by (simp add: unaccounted_def algebra_simps retired_in_fine_run_Whole)
qed

theorem quantums_accounting_witness:
  "uthread_init 100000 (static_state 4 4096) = Return SUCCESS started
   \<and> (\<exists>s a. fine_run (started, UserCode)
               (map Whole [Call Spawn, Tick, Tick, Call (Terminate 1)]) = Some (s, a)
        \<and> sum_quantums s
            + retired_in_fine_run (started, UserCode)
                (map Whole [Call Spawn, Tick, Tick, Call (Terminate 1)])
            = total_quantums s)"
proof -
  have "fine_run (started, UserCode) (map Whole [Call Spawn, Tick, Tick, Call (Terminate 1)])
      \<noteq> None"
    by (simp add: fine_defs started_def del: dom_threads case_threads)
  then obtain s a where
    s: "fine_run (started, UserCode) (map Whole [Call Spawn, Tick, Tick, Call (Terminate 1)])
          = Some (s, a)"
    by auto
  from quantums_accounting [OF init_started s] s init_started show ?thesis by blast
qed

text \<open>
  Counterexample to C1 as stated, with every call run as a whole: thread 1 is
  spawned, runs for one quantum, the main thread runs again and terminates it. The
  counter of the main thread is 2, and \<open>total_quantums\<close> is 3.
\<close>

theorem quantums_sum_below_total:
  "map_option (\<lambda>(s, a). (sum_quantums s, total_quantums s))
     (fine_run_library 4 4096 100000 (map Whole [Call Spawn, Tick, Tick, Call (Terminate 1)]))
   = Some (2, 3)"
  by (simp add: fine_defs sum_quantums_def quantum_sum_def del: dom_threads case_threads)

text \<open>
  The executions that the amended claim leaves out: when a tick arrives between the
  statements of \<open>create_thread\<close>, a counter can get lost although no thread is
  terminated, as in \<open>fine_run_stale_id\<close> above.
\<close>


subsection \<open>C2: where the live threads are\<close>

text \<open>
  Claim C2, amended. Take an execution in which the timer never fires while
  \<open>uthread_spawn\<close> runs (which does not block the signal): every event is a whole
  call or a tick between two calls. In every state that such an execution reaches,
  the running thread is neither in the ready queue nor blocked nor waiting for the
  mutex, no thread of the ready queue is blocked or waiting for the mutex, and the
  ready queue, the blocked set, the set of threads waiting for the mutex and the
  running thread together are exactly the live threads. (The blocked set and the
  waiting set may overlap.)
\<close>

theorem collection_partition:
  assumes "fine_run_library N ss q (map Whole es) = Some (s, a)"
  shows "curr_thread_id (threadsCollectionManager s) \<notin> set (readyQueue (threadsCollectionManager s))
    \<and> curr_thread_id (threadsCollectionManager s) \<notin> blocked (threadsCollectionManager s)
    \<and> curr_thread_id (threadsCollectionManager s) \<notin> waiting_fot_mutex (threadsCollectionManager s)
    \<and> set (readyQueue (threadsCollectionManager s)) \<inter> blocked (threadsCollectionManager s) = {}
    \<and> set (readyQueue (threadsCollectionManager s))
          \<inter> waiting_fot_mutex (threadsCollectionManager s) = {}
    \<and> set (readyQueue (threadsCollectionManager s)) \<union> blocked (threadsCollectionManager s)
          \<union> waiting_fot_mutex (threadsCollectionManager s)
          \<union> {curr_thread_id (threadsCollectionManager s)}
        = dom (threads (threadsCollectionManager s))"
proof -
  from assms have "run_library N ss q es = Some s"
    unfolding fine_run_library_Whole by auto
  then have "wf_state s" by (rule wf_run_library)
  then show ?thesis by (auto simp: wf_state_def wf_manager_def)
qed

theorem collection_partition_witness:
  "fine_run_library 4 4096 100000
     (map Whole
        [Call Spawn, Call Spawn, Tick, Call MutexLock, Tick, Call MutexLock, Call (Block 2)])
     = Some (blocked_waiter, UserCode)
   \<and> curr_thread_id (threadsCollectionManager blocked_waiter)
        \<notin> set (readyQueue (threadsCollectionManager blocked_waiter))
   \<and> set (readyQueue (threadsCollectionManager blocked_waiter))
        \<inter> blocked (threadsCollectionManager blocked_waiter) = {}
   \<and> set (readyQueue (threadsCollectionManager blocked_waiter))
        \<union> blocked (threadsCollectionManager blocked_waiter)
        \<union> waiting_fot_mutex (threadsCollectionManager blocked_waiter)
        \<union> {curr_thread_id (threadsCollectionManager blocked_waiter)}
       = dom (threads (threadsCollectionManager blocked_waiter))"
proof -
  have r: "fine_run_library 4 4096 100000
     (map Whole
        [Call Spawn, Call Spawn, Tick, Call MutexLock, Tick, Call MutexLock, Call (Block 2)])
     = Some (blocked_waiter, UserCode)"
    unfolding fine_run_library_Whole by (simp add: run_blocked_waiter)
  from collection_partition [OF r] r show ?thesis by blast
qed

text \<open>
  Counterexample to C2 as stated, with every call run as a whole: thread 2 waits for
  the mutex that thread 1 holds, and the main thread blocks it; it is then both
  blocked and waiting.
\<close>

theorem blocked_and_waiting_overlap:
  "fine_run_library 4 4096 100000
     (map Whole
        [Call Spawn, Call Spawn, Tick, Call MutexLock, Tick, Call MutexLock, Call (Block 2)])
     = Some (blocked_waiter, UserCode)
   \<and> blocked (threadsCollectionManager blocked_waiter)
        \<inter> waiting_fot_mutex (threadsCollectionManager blocked_waiter) = {2}"
  unfolding fine_run_library_Whole by (simp add: run_blocked_waiter blocked_waiter_def)

text \<open>
  The executions that the amended claim leaves out: when a tick arrives between the
  statements of \<open>create_thread\<close>, a thread can end up in the ready queue and in the
  blocked set, as in \<open>fine_run_ready_and_blocked\<close> above.
\<close>


subsection \<open>C3: the timer signal is blocked during a call\<close>






subsection \<open>C4: advancing the line of the threads that wait for the mutex\<close>

text \<open>
  Claim C4. \<open>advance_mutex_line\<close> changes nothing when no thread waits for the
  mutex. Otherwise, when some waiting thread is not blocked, the least id among the
  waiting threads that are not blocked is removed from the waiting set and appended
  to the back of the ready queue. When every waiting thread is blocked as well,
  exactly one id is removed from the waiting set and nothing is enqueued. (A
  \<open>std::set\<close> is finite.)
\<close>

theorem advance_mutex_line_spec:
  assumes "finite (waiting_fot_mutex m)"
  shows "(waiting_fot_mutex m = {} \<longrightarrow> advance_mutex_line m = m)
    \<and> (waiting_fot_mutex m - blocked m \<noteq> {} \<longrightarrow>
         (\<exists>i. i \<in> waiting_fot_mutex m \<and> i \<notin> blocked m
            \<and> (\<forall>j \<in> waiting_fot_mutex m. j \<notin> blocked m \<longrightarrow> i \<le> j)
            \<and> advance_mutex_line m =
                 m\<lparr>readyQueue := readyQueue m @ [i],
                   waiting_fot_mutex := waiting_fot_mutex m - {i}\<rparr>))
    \<and> (waiting_fot_mutex m \<noteq> {} \<and> waiting_fot_mutex m \<subseteq> blocked m \<longrightarrow>
         (\<exists>i. i \<in> waiting_fot_mutex m
            \<and> advance_mutex_line m = m\<lparr>waiting_fot_mutex := waiting_fot_mutex m - {i}\<rparr>))"
proof (intro conjI impI)
  assume "waiting_fot_mutex m = {}"
  then show "advance_mutex_line m = m" by (simp add: advance_mutex_line_def)
next
  let ?D = "waiting_fot_mutex m - blocked m"
  assume ne: "?D \<noteq> {}"
  from assms have fin: "finite ?D" by simp
  from fin ne have "Min ?D \<in> ?D" by (rule Min_in)
  moreover from fin have "\<forall>j \<in> ?D. Min ?D \<le> j" by simp
  moreover from ne have "advance_mutex_line m =
      m\<lparr>readyQueue := readyQueue m @ [Min ?D],
        waiting_fot_mutex := waiting_fot_mutex m - {Min ?D}\<rparr>"
    by (auto simp: advance_mutex_line_def Let_def)
  ultimately show "\<exists>i. i \<in> waiting_fot_mutex m \<and> i \<notin> blocked m
            \<and> (\<forall>j \<in> waiting_fot_mutex m. j \<notin> blocked m \<longrightarrow> i \<le> j)
            \<and> advance_mutex_line m =
                 m\<lparr>readyQueue := readyQueue m @ [i],
                   waiting_fot_mutex := waiting_fot_mutex m - {i}\<rparr>"
    by (intro exI [of _ "Min ?D"]) auto
next
  assume a: "waiting_fot_mutex m \<noteq> {} \<and> waiting_fot_mutex m \<subseteq> blocked m"
  with assms have "Min (waiting_fot_mutex m) \<in> waiting_fot_mutex m" by simp
  moreover from a have "advance_mutex_line m =
      m\<lparr>waiting_fot_mutex := waiting_fot_mutex m - {Min (waiting_fot_mutex m)}\<rparr>"
    by (auto simp: advance_mutex_line_def Let_def)
  ultimately show "\<exists>i. i \<in> waiting_fot_mutex m
            \<and> advance_mutex_line m = m\<lparr>waiting_fot_mutex := waiting_fot_mutex m - {i}\<rparr>"
    by blast
qed

theorem advance_mutex_line_spec_witness:
  "finite (waiting_fot_mutex two_waiters)
   \<and> waiting_fot_mutex two_waiters - blocked two_waiters \<noteq> {}
   \<and> advance_mutex_line two_waiters
       = two_waiters\<lparr>readyQueue := [1, 3], waiting_fot_mutex := {2}\<rparr>"
proof -
  have fin: "finite (waiting_fot_mutex two_waiters)" by (simp add: two_waiters_def)
  have ne: "waiting_fot_mutex two_waiters - blocked two_waiters \<noteq> {}"
    by (simp add: two_waiters_def)
  have d: "waiting_fot_mutex two_waiters - blocked two_waiters = {3}"
    by (auto simp: two_waiters_def)
  from advance_mutex_line_spec [OF fin] ne obtain i where
    i: "i \<in> waiting_fot_mutex two_waiters" "i \<notin> blocked two_waiters"
    and eq: "advance_mutex_line two_waiters =
      two_waiters\<lparr>readyQueue := readyQueue two_waiters @ [i],
                   waiting_fot_mutex := waiting_fot_mutex two_waiters - {i}\<rparr>"
    by blast
  from i d have "i = 3" by auto
  with eq have "advance_mutex_line two_waiters
       = two_waiters\<lparr>readyQueue := [1, 3], waiting_fot_mutex := {2}\<rparr>"
    by (auto simp: two_waiters_def)
  with fin ne show ?thesis by simp
qed


subsection \<open>C5: errors of the mutex functions, and a successful unlock\<close>

text \<open>
  Claim C5. \<open>uthread_mutex_lock\<close> returns -1 when the running thread holds the mutex,
  and \<open>uthread_mutex_unlock\<close> returns -1 when the mutex is not locked or is held by
  another thread; in these cases the mutex, the collection and the quantum counter
  are unchanged. A successful \<open>uthread_mutex_unlock\<close> returns 0, leaves the mutex
  unlocked with holder -1, and the collection is the result of
  \<open>advance_mutex_line\<close>.
\<close>

theorem mutex_errors_spec:
  "(locked (mutex s) \<and> locking_thread (mutex s) = get_curr_id (threadsCollectionManager s) \<longrightarrow>
      (\<exists>s'. uthread_mutex_lock s = Return FAILURE s'
         \<and> mutex s' = mutex s
         \<and> threadsCollectionManager s' = threadsCollectionManager s
         \<and> total_quantums s' = total_quantums s))
   \<and> (\<not> locked (mutex s)
        \<or> locking_thread (mutex s) \<noteq> get_curr_id (threadsCollectionManager s) \<longrightarrow>
      (\<exists>s'. uthread_mutex_unlock s = Return FAILURE s'
         \<and> mutex s' = mutex s
         \<and> threadsCollectionManager s' = threadsCollectionManager s
         \<and> total_quantums s' = total_quantums s))
   \<and> (locked (mutex s) \<and> locking_thread (mutex s) = get_curr_id (threadsCollectionManager s) \<longrightarrow>
      (\<exists>s'. uthread_mutex_unlock s = Return SUCCESS s'
         \<and> \<not> locked (mutex s') \<and> locking_thread (mutex s') = - 1
         \<and> threadsCollectionManager s' = advance_mutex_line (threadsCollectionManager s)
         \<and> total_quantums s' = total_quantums s))"
proof (intro conjI impI)
  assume "locked (mutex s)
    \<and> locking_thread (mutex s) = get_curr_id (threadsCollectionManager s)"
  then show "\<exists>s'. uthread_mutex_lock s = Return FAILURE s'
         \<and> mutex s' = mutex s
         \<and> threadsCollectionManager s' = threadsCollectionManager s
         \<and> total_quantums s' = total_quantums s"
    by (simp add: uthread_mutex_lock_def Let_def)
next
  assume "\<not> locked (mutex s)
    \<or> locking_thread (mutex s) \<noteq> get_curr_id (threadsCollectionManager s)"
  then show "\<exists>s'. uthread_mutex_unlock s = Return FAILURE s'
         \<and> mutex s' = mutex s
         \<and> threadsCollectionManager s' = threadsCollectionManager s
         \<and> total_quantums s' = total_quantums s"
    by (auto simp: uthread_mutex_unlock_def Let_def)
next
  assume "locked (mutex s)
    \<and> locking_thread (mutex s) = get_curr_id (threadsCollectionManager s)"
  then show "\<exists>s'. uthread_mutex_unlock s = Return SUCCESS s'
         \<and> \<not> locked (mutex s') \<and> locking_thread (mutex s') = - 1
         \<and> threadsCollectionManager s' = advance_mutex_line (threadsCollectionManager s)
         \<and> total_quantums s' = total_quantums s"
    by (simp add: uthread_mutex_unlock_def Let_def)
qed


theorem mutex_errors_spec_witness:
  "(\<exists>s'. uthread_mutex_lock main_holds = Return FAILURE s'
      \<and> mutex s' = mutex main_holds
      \<and> threadsCollectionManager s' = threadsCollectionManager main_holds
      \<and> total_quantums s' = total_quantums main_holds)
   \<and> (\<exists>s'. uthread_mutex_unlock started = Return FAILURE s'
      \<and> mutex s' = mutex started
      \<and> threadsCollectionManager s' = threadsCollectionManager started
      \<and> total_quantums s' = total_quantums started)
   \<and> (\<exists>s'. uthread_mutex_unlock thread1_holds = Return SUCCESS s'
      \<and> \<not> locked (mutex s') \<and> locking_thread (mutex s') = - 1
      \<and> threadsCollectionManager s' = advance_mutex_line (threadsCollectionManager thread1_holds)
      \<and> total_quantums s' = total_quantums thread1_holds)"
proof -
  have h1: "locked (mutex main_holds)
      \<and> locking_thread (mutex main_holds) = get_curr_id (threadsCollectionManager main_holds)"
    by (simp add: main_holds_def started_def get_curr_id_def)
  have h2: "\<not> locked (mutex started)
      \<or> locking_thread (mutex started) \<noteq> get_curr_id (threadsCollectionManager started)"
    by (simp add: started_def)
  have h3: "locked (mutex thread1_holds)
      \<and> locking_thread (mutex thread1_holds) = get_curr_id (threadsCollectionManager thread1_holds)"
    by (simp add: thread1_holds_def get_curr_id_def)
  from h1 h2 h3 mutex_errors_spec [of main_holds] mutex_errors_spec [of started]
    mutex_errors_spec [of thread1_holds]
  show ?thesis by blast
qed


subsection \<open>C6: \<open>uthread_resume\<close>\<close>

text \<open>
  Claim C6. \<open>uthread_resume tid\<close> always returns, -1 exactly when no thread has id
  \<open>tid\<close> (nothing changes then) and 0 otherwise. In the latter case \<open>tid\<close> is removed
  from the blocked set, and it is appended to the ready queue exactly when it is not
  the running thread and is neither in the ready queue nor waiting for the mutex
  (the check of the blocked set comes after the removal and always succeeds). So a
  thread that waits for the mutex stays in the waiting set and is not enqueued; and
  in every state an execution reaches (of calls that run as a whole, and ticks),
  resuming a thread that is neither blocked nor waiting for the mutex leaves the
  collection, the mutex and the quantum counter unchanged.
\<close>

theorem uthread_resume_spec:
  "\<exists>r s'. uthread_resume tid s = Return r s'
     \<and> (r = FAILURE \<longleftrightarrow> \<not> contains (threadsCollectionManager s) tid)
     \<and> (r = FAILURE \<or> r = SUCCESS)
     \<and> mutex s' = mutex s \<and> total_quantums s' = total_quantums s
     \<and> (\<not> contains (threadsCollectionManager s) tid \<longrightarrow>
          threadsCollectionManager s' = threadsCollectionManager s)
     \<and> (contains (threadsCollectionManager s) tid \<longrightarrow>
          threadsCollectionManager s' =
            (if tid \<noteq> curr_thread_id (threadsCollectionManager s)
                \<and> tid \<notin> set (readyQueue (threadsCollectionManager s))
                \<and> tid \<notin> waiting_fot_mutex (threadsCollectionManager s)
                \<and> tid \<notin> blocked (threadsCollectionManager s) - {tid}
             then (threadsCollectionManager s)
                    \<lparr>blocked := blocked (threadsCollectionManager s) - {tid},
                     readyQueue := readyQueue (threadsCollectionManager s) @ [tid]\<rparr>
             else (threadsCollectionManager s)
                    \<lparr>blocked := blocked (threadsCollectionManager s) - {tid}\<rparr>))
     \<and> (contains (threadsCollectionManager s) tid
          \<and> tid \<in> waiting_fot_mutex (threadsCollectionManager s) \<longrightarrow>
          waiting_fot_mutex (threadsCollectionManager s')
            = waiting_fot_mutex (threadsCollectionManager s)
          \<and> readyQueue (threadsCollectionManager s') = readyQueue (threadsCollectionManager s))
     \<and> (run_library N ss q es = Some s
          \<and> contains (threadsCollectionManager s) tid
          \<and> tid \<notin> blocked (threadsCollectionManager s)
          \<and> tid \<notin> waiting_fot_mutex (threadsCollectionManager s) \<longrightarrow>
          threadsCollectionManager s' = threadsCollectionManager s)"
proof -
  let ?m = "threadsCollectionManager s"
  have idle: "run_library N ss q es = Some s \<Longrightarrow> contains ?m tid \<Longrightarrow> tid \<notin> blocked ?m
      \<Longrightarrow> tid \<notin> waiting_fot_mutex ?m
      \<Longrightarrow> (tid = curr_thread_id ?m \<or> tid \<in> set (readyQueue ?m)) \<and> blocked ?m - {tid} = blocked ?m"
    using wf_run_library [of N ss q es s]
    by (auto simp: wf_state_def wf_manager_def contains_live)
  show ?thesis
    using idle
    by (auto simp: uthread_resume_def resume_def set_as_ready_def Let_def)
qed


theorem uthread_resume_spec_witness:
  "(\<exists>s'. uthread_resume 5 started = Return FAILURE s'
      \<and> threadsCollectionManager s' = threadsCollectionManager started)
   \<and> (\<exists>s'. uthread_resume 1 one_blocked = Return SUCCESS s'
      \<and> blocked (threadsCollectionManager s') = {}
      \<and> readyQueue (threadsCollectionManager s') = [1])
   \<and> (\<exists>s'. uthread_resume 2 blocked_waiter = Return SUCCESS s'
      \<and> blocked (threadsCollectionManager s') = {}
      \<and> waiting_fot_mutex (threadsCollectionManager s') = {2}
      \<and> readyQueue (threadsCollectionManager s') = [1])
   \<and> (\<exists>s'. uthread_resume 1 one_spawned = Return SUCCESS s'
      \<and> threadsCollectionManager s' = threadsCollectionManager one_spawned)"
proof -
  have 1: "\<exists>s'. uthread_resume 5 started = Return FAILURE s'
      \<and> threadsCollectionManager s' = threadsCollectionManager started"
    using uthread_resume_spec [of 5 started]
    by (auto simp: contains_def started_def)
  have 2: "\<exists>s'. uthread_resume 1 one_blocked = Return SUCCESS s'
      \<and> blocked (threadsCollectionManager s') = {}
      \<and> readyQueue (threadsCollectionManager s') = [1]"
    using uthread_resume_spec [of 1 one_blocked]
    by (auto simp: contains_def one_blocked_def one_spawned_def started_def)
  have 3: "\<exists>s'. uthread_resume 2 blocked_waiter = Return SUCCESS s'
      \<and> blocked (threadsCollectionManager s') = {}
      \<and> waiting_fot_mutex (threadsCollectionManager s') = {2}
      \<and> readyQueue (threadsCollectionManager s') = [1]"
    using uthread_resume_spec [of 2 blocked_waiter]
    by (auto simp: contains_def blocked_waiter_def)
  have c: "contains (threadsCollectionManager one_spawned) 1
      \<and> 1 \<notin> blocked (threadsCollectionManager one_spawned)
      \<and> 1 \<notin> waiting_fot_mutex (threadsCollectionManager one_spawned)"
    by (simp add: contains_def one_spawned_def started_def)
  have 4: "\<exists>s'. uthread_resume 1 one_spawned = Return SUCCESS s'
      \<and> threadsCollectionManager s' = threadsCollectionManager one_spawned"
    using uthread_resume_spec [of 1 one_spawned 4 4096 100000 "[Call Spawn]"] run_one_spawned c
    by auto
  from 1 2 3 4 show ?thesis by blast
qed


text \<open>
  In any state whatever, also one that is reached with a tick inside \<open>uthread_spawn\<close>:
  resuming a thread that is running or in the ready queue, and not blocked, changes
  nothing.
\<close>

lemma uthread_resume_running_or_ready:
  assumes "contains (threadsCollectionManager s) tid"
    and "tid \<notin> blocked (threadsCollectionManager s)"
    and "tid = curr_thread_id (threadsCollectionManager s)
         \<or> tid \<in> set (readyQueue (threadsCollectionManager s))"
  shows "\<exists>s'. uthread_resume tid s = Return SUCCESS s'
    \<and> threadsCollectionManager s' = threadsCollectionManager s
    \<and> mutex s' = mutex s \<and> total_quantums s' = total_quantums s"
  using assms
  by (auto simp: uthread_resume_def resume_def set_as_ready_def Let_def)


subsection \<open>C7: \<open>uthread_spawn\<close>\<close>

text \<open>
  Claim C7. \<open>uthread_spawn\<close> returns -1, changing nothing, when no id is free.
  Otherwise it returns the least free id, having removed it from the free ids,
  stored a new thread record (quantums 0, context at the entry point) under it and
  appended it to the back of the ready queue. After \<open>uthread_terminate tid\<close> the next
  \<open>uthread_spawn\<close> returns the least id among \<open>tid\<close> and the ids that were free
  before. (A \<open>std::set\<close> is finite.)
\<close>

theorem uthread_spawn_spec:
  "(available_ids (threadsCollectionManager s) = {} \<longrightarrow> uthread_spawn s = Return FAILURE s)
   \<and> (available_ids (threadsCollectionManager s) \<noteq> {}
        \<and> finite (available_ids (threadsCollectionManager s)) \<longrightarrow>
      (\<exists>i. i \<in> available_ids (threadsCollectionManager s)
         \<and> (\<forall>j \<in> available_ids (threadsCollectionManager s). i \<le> j)
         \<and> uthread_spawn s =
             Return i
               (s\<lparr>threadsCollectionManager :=
                   (threadsCollectionManager s)
                     \<lparr>available_ids := available_ids (threadsCollectionManager s) - {i},
                      threads := (threads (threadsCollectionManager s))(i \<mapsto> Thread_ctor i),
                      readyQueue := readyQueue (threadsCollectionManager s) @ [i]\<rparr>\<rparr>)))
   \<and> (finite (available_ids (threadsCollectionManager s)) \<longrightarrow>
      (\<forall>s1. uthread_terminate tid s = Return SUCCESS s1 \<or> uthread_terminate tid s = Jumped s1 \<longrightarrow>
         (\<exists>i s2. uthread_spawn s1 = Return i s2
            \<and> i \<in> insert tid (available_ids (threadsCollectionManager s))
            \<and> (\<forall>j \<in> insert tid (available_ids (threadsCollectionManager s)). i \<le> j))))"
proof (intro conjI impI allI)
  assume "available_ids (threadsCollectionManager s) = {}"
  then show "uthread_spawn s = Return FAILURE s"
    by (simp add: uthread_spawn_def create_thread_def)
next
  let ?A = "available_ids (threadsCollectionManager s)"
  assume a: "?A \<noteq> {} \<and> finite ?A"
  then have "Min ?A \<in> ?A" and "\<forall>j \<in> ?A. Min ?A \<le> j" by simp_all
  moreover from a have "uthread_spawn s =
             Return (Min ?A)
               (s\<lparr>threadsCollectionManager :=
                   (threadsCollectionManager s)
                     \<lparr>available_ids := ?A - {Min ?A},
                      threads := (threads (threadsCollectionManager s))(Min ?A \<mapsto> Thread_ctor (Min ?A)),
                      readyQueue := readyQueue (threadsCollectionManager s) @ [Min ?A]\<rparr>\<rparr>)"
    by (simp add: uthread_spawn_def create_thread_def Let_def)
  ultimately show "\<exists>i. i \<in> ?A \<and> (\<forall>j \<in> ?A. i \<le> j)
         \<and> uthread_spawn s =
             Return i
               (s\<lparr>threadsCollectionManager :=
                   (threadsCollectionManager s)
                     \<lparr>available_ids := ?A - {i},
                      threads := (threads (threadsCollectionManager s))(i \<mapsto> Thread_ctor i),
                      readyQueue := readyQueue (threadsCollectionManager s) @ [i]\<rparr>\<rparr>)"
    by blast
next
  fix s1
  let ?A = "available_ids (threadsCollectionManager s)"
  assume fin: "finite ?A"
  assume t: "uthread_terminate tid s = Return SUCCESS s1 \<or> uthread_terminate tid s = Jumped s1"
  have av: "available_ids (threadsCollectionManager s1) = insert tid ?A"
    using t
    by (auto simp: uthread_terminate_def Let_def switch_threads_mid_quantum_Jumped
        split: if_splits)
  let ?B = "insert tid ?A"
  from fin have finB: "finite ?B" by simp
  have "Min ?B \<in> ?B" by (rule Min_in [OF finB]) simp
  moreover from finB have "\<forall>j \<in> ?B. Min ?B \<le> j" by (simp del: Min_insert)
  moreover have "\<exists>s2. uthread_spawn s1 = Return (Min ?B) s2"
    by (simp add: uthread_spawn_def create_thread_def Let_def av)
  ultimately show "\<exists>i s2. uthread_spawn s1 = Return i s2 \<and> i \<in> ?B \<and> (\<forall>j \<in> ?B. i \<le> j)"
    by blast
qed


theorem uthread_spawn_spec_witness:
  "uthread_spawn alone = Return FAILURE alone
   \<and> uthread_spawn started = Return 1 one_spawned
   \<and> (\<exists>s1 s2. uthread_terminate 1 one_spawned = Return SUCCESS s1
         \<and> uthread_spawn s1 = Return 1 s2)"
proof -
  have a: "available_ids (threadsCollectionManager alone) = {}"
    by (simp add: alone_def started_def)
  have b: "available_ids (threadsCollectionManager started) \<noteq> {}
      \<and> finite (available_ids (threadsCollectionManager started))"
    by (simp add: started_def)
  have c: "finite (available_ids (threadsCollectionManager one_spawned))"
    by (simp add: one_spawned_def started_def)
  from a uthread_spawn_spec [of alone] have 1: "uthread_spawn alone = Return FAILURE alone"
    by blast
  from b uthread_spawn_spec [of started] obtain i where
    i: "i \<in> available_ids (threadsCollectionManager started)"
      "\<forall>j \<in> available_ids (threadsCollectionManager started). i \<le> j"
    and sp: "uthread_spawn started =
             Return i
               (started\<lparr>threadsCollectionManager :=
                   (threadsCollectionManager started)
                     \<lparr>available_ids := available_ids (threadsCollectionManager started) - {i},
                      threads := (threads (threadsCollectionManager started))(i \<mapsto> Thread_ctor i),
                      readyQueue := readyQueue (threadsCollectionManager started) @ [i]\<rparr>\<rparr>)"
    by blast
  from i have "i = 1" by (auto simp: started_def)
  with sp have 2: "uthread_spawn started = Return 1 one_spawned"
    by (simp add: started_def one_spawned_def insert_Diff_if)
  have t: "uthread_terminate 1 one_spawned = Return SUCCESS
      (mask_time_signal SIG_UNBLOCK (delete_thread 1 (mask_time_signal SIG_BLOCK one_spawned)))"
    by (simp add: uthread_terminate_def Let_def contains_def get_curr_id_def one_spawned_def
        started_def)
  with c uthread_spawn_spec [of one_spawned 1] obtain k s2 where
    k: "uthread_spawn (mask_time_signal SIG_UNBLOCK
          (delete_thread 1 (mask_time_signal SIG_BLOCK one_spawned))) = Return k s2"
      "k \<in> insert 1 (available_ids (threadsCollectionManager one_spawned))"
      "\<forall>j \<in> insert 1 (available_ids (threadsCollectionManager one_spawned)). k \<le> j"
    by blast
  from k(2,3) have "k = 1" by (auto simp: one_spawned_def started_def)
  with k(1) t have 3: "\<exists>s1 s2. uthread_terminate 1 one_spawned = Return SUCCESS s1
         \<and> uthread_spawn s1 = Return 1 s2"
    by blast
  from 1 2 3 show ?thesis by blast
qed


subsection \<open>C8: the timer signal handler\<close>

text \<open>
  Claim C8. When the ready queue is empty, \<open>time_sig_handler\<close> returns without a
  switch, with \<open>total_quantums\<close> and the quantums counter of the running thread
  each incremented by one and nothing else changed. When the ready queue is
  \<open>x # rest\<close>, it ends in a jump into thread \<open>x\<close>: \<open>total_quantums\<close> and the counter
  of \<open>x\<close> are incremented by one, \<open>x\<close> is the running thread, and the ready queue is
  what \<open>set_as_ready\<close> of the previously running thread makes of \<open>rest\<close>, which in a
  well-formed collection is \<open>rest\<close> with that thread appended.
\<close>

theorem time_sig_handler_spec:
  "(readyQueue (threadsCollectionManager s) = [] \<longrightarrow>
      (\<exists>s'. time_sig_handler s = Return () s'
         \<and> total_quantums s' = total_quantums s + 1
         \<and> quantums (get_current_thread (threadsCollectionManager s'))
             = quantums (get_current_thread (threadsCollectionManager s)) + 1
         \<and> env (get_current_thread (threadsCollectionManager s'))
             = env (get_current_thread (threadsCollectionManager s))
         \<and> (\<forall>j. j \<noteq> curr_thread_id (threadsCollectionManager s) \<longrightarrow>
               threads (threadsCollectionManager s') j = threads (threadsCollectionManager s) j)
         \<and> curr_thread_id (threadsCollectionManager s') = curr_thread_id (threadsCollectionManager s)
         \<and> readyQueue (threadsCollectionManager s') = []
         \<and> blocked (threadsCollectionManager s') = blocked (threadsCollectionManager s)
         \<and> waiting_fot_mutex (threadsCollectionManager s')
             = waiting_fot_mutex (threadsCollectionManager s)
         \<and> available_ids (threadsCollectionManager s') = available_ids (threadsCollectionManager s)
         \<and> mutex s' = mutex s))
   \<and> (\<forall>x rest. readyQueue (threadsCollectionManager s) = x # rest \<longrightarrow>
      (\<exists>s'. time_sig_handler s = Jumped s'
         \<and> total_quantums s' = total_quantums s + 1
         \<and> curr_thread_id (threadsCollectionManager s') = x
         \<and> quantums (get_thread x (threadsCollectionManager s'))
             = quantums (get_thread x (threadsCollectionManager s)) + 1
         \<and> readyQueue (threadsCollectionManager s')
             = readyQueue (set_as_ready (curr_thread_id (threadsCollectionManager s))
                 ((threadsCollectionManager s)\<lparr>readyQueue := rest, curr_thread_id := x\<rparr>))
         \<and> (wf_manager (threadsCollectionManager s) \<longrightarrow>
               readyQueue (threadsCollectionManager s')
                 = rest @ [curr_thread_id (threadsCollectionManager s)])
         \<and> blocked (threadsCollectionManager s') = blocked (threadsCollectionManager s)
         \<and> waiting_fot_mutex (threadsCollectionManager s')
             = waiting_fot_mutex (threadsCollectionManager s)
         \<and> available_ids (threadsCollectionManager s') = available_ids (threadsCollectionManager s)
         \<and> mutex s' = mutex s))"
proof (intro conjI impI allI)
  assume "readyQueue (threadsCollectionManager s) = []"
  then show "\<exists>s'. time_sig_handler s = Return () s'
         \<and> total_quantums s' = total_quantums s + 1
         \<and> quantums (get_current_thread (threadsCollectionManager s'))
             = quantums (get_current_thread (threadsCollectionManager s)) + 1
         \<and> env (get_current_thread (threadsCollectionManager s'))
             = env (get_current_thread (threadsCollectionManager s))
         \<and> (\<forall>j. j \<noteq> curr_thread_id (threadsCollectionManager s) \<longrightarrow>
               threads (threadsCollectionManager s') j = threads (threadsCollectionManager s) j)
         \<and> curr_thread_id (threadsCollectionManager s') = curr_thread_id (threadsCollectionManager s)
         \<and> readyQueue (threadsCollectionManager s') = []
         \<and> blocked (threadsCollectionManager s') = blocked (threadsCollectionManager s)
         \<and> waiting_fot_mutex (threadsCollectionManager s')
             = waiting_fot_mutex (threadsCollectionManager s)
         \<and> available_ids (threadsCollectionManager s') = available_ids (threadsCollectionManager s)
         \<and> mutex s' = mutex s"
    by (simp add: time_sig_handler_def is_someone_waiting_def get_current_thread_def)
       (simp add: incr_current_quantums_def set_thread_def Let_def)
next
  fix x rest
  let ?m = "threadsCollectionManager s"
  let ?c = "curr_thread_id ?m"
  let ?s' = "landed (incr_current_quantums
               (on_manager (set_as_ready ?c) (switched InTimeHandler x rest s)))"
  assume q: "readyQueue ?m = x # rest"
  then have j: "time_sig_handler s = Jumped ?s'"
    using switch_threads_cases [of "on_manager (set_as_ready ?c)" InTimeHandler s, where ?'r = unit]
    by (auto simp: time_sig_handler_def is_someone_waiting_def get_curr_id_def Let_def)
  have sets: "set_as_ready ?c (threadsCollectionManager (switched InTimeHandler x rest s))
      = (threadsCollectionManager (switched InTimeHandler x rest s))
          \<lparr>readyQueue := readyQueue (set_as_ready ?c (?m\<lparr>readyQueue := rest, curr_thread_id := x\<rparr>))\<rparr>"
    by (simp add: set_as_ready_def)
  have wfq: "wf_manager ?m \<longrightarrow>
        readyQueue (set_as_ready ?c (?m\<lparr>readyQueue := rest, curr_thread_id := x\<rparr>)) = rest @ [?c]"
    using q by (auto simp: wf_manager_def set_as_ready_def)
  have qx: "quantums (get_thread x (threadsCollectionManager ?s'))
      = quantums (get_thread x ?m) + 1"
    by (simp add: on_manager_def sets)
       (simp add: incr_current_quantums_def set_thread_def Let_def switched_def
          sigsetjmp_current_def)
  show "\<exists>s'. time_sig_handler s = Jumped s'
         \<and> total_quantums s' = total_quantums s + 1
         \<and> curr_thread_id (threadsCollectionManager s') = x
         \<and> quantums (get_thread x (threadsCollectionManager s'))
             = quantums (get_thread x ?m) + 1
         \<and> readyQueue (threadsCollectionManager s')
             = readyQueue (set_as_ready ?c (?m\<lparr>readyQueue := rest, curr_thread_id := x\<rparr>))
         \<and> (wf_manager ?m \<longrightarrow> readyQueue (threadsCollectionManager s') = rest @ [?c])
         \<and> blocked (threadsCollectionManager s') = blocked ?m
         \<and> waiting_fot_mutex (threadsCollectionManager s') = waiting_fot_mutex ?m
         \<and> available_ids (threadsCollectionManager s') = available_ids ?m
         \<and> mutex s' = mutex s"
    using j qx wfq by (simp add: on_manager_def sets)
qed


theorem time_sig_handler_spec_witness:
  "(\<exists>s'. time_sig_handler started = Return () s'
      \<and> total_quantums s' = 2
      \<and> quantums (get_current_thread (threadsCollectionManager s')) = 2
      \<and> curr_thread_id (threadsCollectionManager s') = 0)
   \<and> (\<exists>s'. time_sig_handler one_spawned = Jumped s'
      \<and> total_quantums s' = 2
      \<and> curr_thread_id (threadsCollectionManager s') = 1
      \<and> quantums (get_thread 1 (threadsCollectionManager s')) = 1
      \<and> readyQueue (threadsCollectionManager s') = [0])"
proof -
  have a: "readyQueue (threadsCollectionManager started) = []"
    by (simp add: started_def)
  have b: "readyQueue (threadsCollectionManager one_spawned) = 1 # []"
    by (simp add: one_spawned_def started_def)
  have w: "wf_manager (threadsCollectionManager one_spawned)"
    using wf_run_library [OF run_one_spawned] by (simp add: wf_state_def)
  have va: "total_quantums started = 1"
    "quantums (get_current_thread (threadsCollectionManager started)) = 1"
    "curr_thread_id (threadsCollectionManager started) = 0"
    by (simp_all add: started_def get_current_thread_def get_thread_def Thread_default_def)
  have vb: "total_quantums one_spawned = 1"
    "quantums (get_thread 1 (threadsCollectionManager one_spawned)) = 0"
    "curr_thread_id (threadsCollectionManager one_spawned) = 0"
    by (simp_all add: one_spawned_def started_def get_thread_def Thread_ctor_def)
  from a time_sig_handler_spec [of started] va
  have 1: "\<exists>s'. time_sig_handler started = Return () s'
      \<and> total_quantums s' = 2
      \<and> quantums (get_current_thread (threadsCollectionManager s')) = 2
      \<and> curr_thread_id (threadsCollectionManager s') = 0"
    by auto
  from time_sig_handler_spec [of one_spawned] b w vb
  have 2: "\<exists>s'. time_sig_handler one_spawned = Jumped s'
      \<and> total_quantums s' = 2
      \<and> curr_thread_id (threadsCollectionManager s') = 1
      \<and> quantums (get_thread 1 (threadsCollectionManager s')) = 1
      \<and> readyQueue (threadsCollectionManager s') = [0]"
    by auto
  from 1 2 show ?thesis by blast
qed


subsection \<open>C9: terminating the thread that holds the mutex\<close>

text \<open>
  Claim C9 says that \<open>uthread_terminate tid\<close> of the live thread \<open>tid\<close> that holds the
  mutex leaves the mutex unlocked, with holder -1, and calls \<open>advance_mutex_line\<close>, so
  that one eligible waiter is admitted to the ready queue. The code does not do this
  when the holder terminates itself while nobody is ready: the main thread spawns
  thread 1; at the first tick thread 1 runs and takes the mutex; at the second tick
  the main thread runs, asks for the mutex and has to wait, so that thread 1 runs
  again, with an empty ready queue. Thread 1, live and holding the mutex, now calls
  \<open>uthread_terminate 1\<close>. \<open>switch_threads\<close> takes the front of the empty ready queue,
  which is undefined behaviour, before \<open>delete_thread\<close>, which holds the release of
  the mutex and the call of \<open>advance_mutex_line\<close>, is reached: the mutex is not
  released and the main thread, which waits for it, is not admitted.
\<close>

theorem uthread_terminate_last_runnable_holder:
  "run_library 4 4096 100000 [Call Spawn, Tick, Call MutexLock, Tick, Call MutexLock]
     = Some holder_runs_alone
   \<and> contains (threadsCollectionManager holder_runs_alone) 1
   \<and> locked (mutex holder_runs_alone) \<and> locking_thread (mutex holder_runs_alone) = 1
   \<and> waiting_fot_mutex (threadsCollectionManager holder_runs_alone) = {0}
   \<and> blocked (threadsCollectionManager holder_runs_alone) = {}
   \<and> uthread_terminate 1 holder_runs_alone = UB"
  using run_holder_runs_alone
  by (simp add: uthread_terminate_def Let_def contains_def get_curr_id_def
      switch_threads_mid_quantum_def switch_threads_def set_next_thread_as_running_def
      sigsetjmp_current_def set_thread_def set_timer_def mask_time_signal_def sigprocmask_def
      holder_runs_alone_def)

text \<open>
  Everywhere else the holder's termination does release the mutex. Let \<open>tid\<close> be the
  id of a live thread other than the main thread 0 that holds the mutex. If \<open>tid\<close> is
  not the running thread, \<open>uthread_terminate tid\<close> returns 0, the mutex is unlocked
  with holder -1, and the collection is the result of \<open>terminate\<close> followed by
  \<open>advance_mutex_line\<close>. If \<open>tid\<close> is the running thread and the ready queue is
  \<open>x # rest\<close>, the call ends in a jump into thread \<open>x\<close>, the mutex is unlocked with
  holder -1, and the ready queue and the waiting set are those that \<open>terminate\<close>
  followed by \<open>advance_mutex_line\<close> yield after the switch. \<open>uthread_terminate 0\<close>
  ends the process, as its description says, and leaves the mutex as it is.
\<close>

lemma uthread_terminate_holder_released:
  "(tid \<noteq> 0 \<and> contains (threadsCollectionManager s) tid \<and> locking_thread (mutex s) = tid
     \<and> tid \<noteq> curr_thread_id (threadsCollectionManager s) \<longrightarrow>
      (\<exists>s'. uthread_terminate tid s = Return SUCCESS s'
         \<and> \<not> locked (mutex s') \<and> locking_thread (mutex s') = - 1
         \<and> threadsCollectionManager s'
             = advance_mutex_line (terminate tid (threadsCollectionManager s))))
   \<and> (\<forall>x rest.
        tid \<noteq> 0 \<and> contains (threadsCollectionManager s) tid \<and> locking_thread (mutex s) = tid
        \<and> tid = curr_thread_id (threadsCollectionManager s)
        \<and> readyQueue (threadsCollectionManager s) = x # rest \<longrightarrow>
      (\<exists>s'. uthread_terminate tid s = Jumped s'
         \<and> \<not> locked (mutex s') \<and> locking_thread (mutex s') = - 1
         \<and> curr_thread_id (threadsCollectionManager s') = x
         \<and> readyQueue (threadsCollectionManager s')
             = readyQueue (advance_mutex_line (terminate tid
                 ((threadsCollectionManager s)\<lparr>readyQueue := rest, curr_thread_id := x\<rparr>)))
         \<and> waiting_fot_mutex (threadsCollectionManager s')
             = waiting_fot_mutex (advance_mutex_line (terminate tid
                 ((threadsCollectionManager s)\<lparr>readyQueue := rest, curr_thread_id := x\<rparr>)))
         \<and> blocked (threadsCollectionManager s') = blocked (threadsCollectionManager s) - {tid}))
   \<and> (\<exists>s'. uthread_terminate 0 s = Exit 0 s' \<and> mutex s' = mutex s
         \<and> threadsCollectionManager s' = threadsCollectionManager s)"
proof (intro conjI impI allI)
  assume "tid \<noteq> 0 \<and> contains (threadsCollectionManager s) tid \<and> locking_thread (mutex s) = tid
     \<and> tid \<noteq> curr_thread_id (threadsCollectionManager s)"
  then show "\<exists>s'. uthread_terminate tid s = Return SUCCESS s'
         \<and> \<not> locked (mutex s') \<and> locking_thread (mutex s') = - 1
         \<and> threadsCollectionManager s'
             = advance_mutex_line (terminate tid (threadsCollectionManager s))"
    by (simp add: uthread_terminate_def Let_def get_curr_id_def delete_thread_def on_manager_def)
next
  fix x rest
  let ?m = "threadsCollectionManager s"
  let ?s1 = "mask_time_signal SIG_BLOCK s"
  let ?u = "switched InTerminate x rest ?s1"
  let ?s' = "landed (incr_current_quantums (delete_thread tid ?u))"
  assume a: "tid \<noteq> 0 \<and> contains ?m tid \<and> locking_thread (mutex s) = tid
        \<and> tid = curr_thread_id ?m \<and> readyQueue ?m = x # rest"
  then have j: "uthread_terminate tid s = Jumped ?s'"
    using switch_threads_cases [of "delete_thread tid" InTerminate ?s1, where ?'r = int]
    by (auto simp: uthread_terminate_def Let_def get_curr_id_def switch_threads_mid_quantum_def
        set_timer_def)
  let ?M = "?m\<lparr>readyQueue := rest, curr_thread_id := x\<rparr>"
  have cong: "readyQueue (advance_mutex_line (terminate tid (threadsCollectionManager ?u)))
        = readyQueue (advance_mutex_line (terminate tid ?M))
      \<and> waiting_fot_mutex (advance_mutex_line (terminate tid (threadsCollectionManager ?u)))
        = waiting_fot_mutex (advance_mutex_line (terminate tid ?M))
      \<and> blocked (advance_mutex_line (terminate tid (threadsCollectionManager ?u)))
        = blocked ?m - {tid}
      \<and> curr_thread_id (advance_mutex_line (terminate tid (threadsCollectionManager ?u))) = x
      \<and> threads (advance_mutex_line (terminate tid (threadsCollectionManager ?u))) tid = None"
    by (simp add: advance_mutex_line_def terminate_def Let_def)
  have del: "delete_thread tid ?u
      = ?u\<lparr>threadsCollectionManager :=
              advance_mutex_line (terminate tid (threadsCollectionManager ?u)),
            mutex := \<lparr>locked = False, locking_thread = - 1\<rparr>\<rparr>"
    using a by (simp add: delete_thread_def on_manager_def Let_def)
  show "\<exists>s'. uthread_terminate tid s = Jumped s'
         \<and> \<not> locked (mutex s') \<and> locking_thread (mutex s') = - 1
         \<and> curr_thread_id (threadsCollectionManager s') = x
         \<and> readyQueue (threadsCollectionManager s')
             = readyQueue (advance_mutex_line (terminate tid
                 (?m\<lparr>readyQueue := rest, curr_thread_id := x\<rparr>)))
         \<and> waiting_fot_mutex (threadsCollectionManager s')
             = waiting_fot_mutex (advance_mutex_line (terminate tid
                 (?m\<lparr>readyQueue := rest, curr_thread_id := x\<rparr>)))
         \<and> blocked (threadsCollectionManager s') = blocked ?m - {tid}"
    using j cong by (simp add: del)
next
  show "\<exists>s'. uthread_terminate 0 s = Exit 0 s' \<and> mutex s' = mutex s
         \<and> threadsCollectionManager s' = threadsCollectionManager s"
    by (simp add: uthread_terminate_def Let_def)
qed

lemma uthread_terminate_holder_released_example:
  "(\<exists>s'. uthread_terminate 1 main_runs_thread1_holds = Return SUCCESS s'
      \<and> \<not> locked (mutex s') \<and> locking_thread (mutex s') = - 1
      \<and> threadsCollectionManager s'
          = advance_mutex_line (terminate 1 (threadsCollectionManager main_runs_thread1_holds)))
   \<and> (\<exists>s'. uthread_terminate 1 thread1_holds = Jumped s'
      \<and> \<not> locked (mutex s') \<and> locking_thread (mutex s') = - 1
      \<and> curr_thread_id (threadsCollectionManager s') = 0
      \<and> blocked (threadsCollectionManager s') = {})"
proof -
  have a: "1 \<noteq> (0::int) \<and> contains (threadsCollectionManager main_runs_thread1_holds) 1
      \<and> locking_thread (mutex main_runs_thread1_holds) = 1
      \<and> 1 \<noteq> curr_thread_id (threadsCollectionManager main_runs_thread1_holds)"
    by (simp add: main_runs_thread1_holds_def contains_def)
  have b: "1 \<noteq> (0::int) \<and> contains (threadsCollectionManager thread1_holds) 1
      \<and> locking_thread (mutex thread1_holds) = 1
      \<and> 1 = curr_thread_id (threadsCollectionManager thread1_holds)
      \<and> readyQueue (threadsCollectionManager thread1_holds) = 0 # []"
    by (simp add: thread1_holds_def contains_def)
  have bl: "blocked (threadsCollectionManager thread1_holds) = {}"
    by (simp add: thread1_holds_def)
  from a uthread_terminate_holder_released [of 1 main_runs_thread1_holds]
  have 1: "\<exists>s'. uthread_terminate 1 main_runs_thread1_holds = Return SUCCESS s'
      \<and> \<not> locked (mutex s') \<and> locking_thread (mutex s') = - 1
      \<and> threadsCollectionManager s'
          = advance_mutex_line (terminate 1 (threadsCollectionManager main_runs_thread1_holds))"
    by blast
  from b uthread_terminate_holder_released [of 1 thread1_holds] bl
  have 2: "\<exists>s'. uthread_terminate 1 thread1_holds = Jumped s'
      \<and> \<not> locked (mutex s') \<and> locking_thread (mutex s') = - 1
      \<and> curr_thread_id (threadsCollectionManager s') = 0
      \<and> blocked (threadsCollectionManager s') = {}"
    by auto
  from 1 2 show ?thesis by blast
qed

text \<open>
  The main thread is live and holds the mutex; \<open>uthread_terminate 0\<close> ends the
  process with the mutex still locked.
\<close>

lemma uthread_terminate_main_holder_exits:
  "contains (threadsCollectionManager main_holds) 0
   \<and> locked (mutex main_holds) \<and> locking_thread (mutex main_holds) = 0
   \<and> uthread_terminate 0 main_holds
       = Exit 0 (main_holds\<lparr>sigvtalrm_blocked := True,
                            sigprocmask_calls := [SIG_BLOCK, SIG_UNBLOCK, SIG_BLOCK]\<rparr>)
   \<and> locked (mutex (main_holds\<lparr>sigvtalrm_blocked := True,
                            sigprocmask_calls := [SIG_BLOCK, SIG_UNBLOCK, SIG_BLOCK]\<rparr>))"
  by (simp add: uthread_terminate_def Let_def main_holds_def started_def contains_def
      mask_time_signal_def sigprocmask_def)


subsection \<open>C10: the counter of a thread that has not run\<close>

text \<open>
  Claim C10. Let an execution (of calls that run as a whole, and ticks) reach a state
  in which \<open>uthread_spawn\<close> succeeds and returns \<open>tid\<close>. After any further events
  through which \<open>tid\<close> never becomes the running thread, and as long as a thread
  with id \<open>tid\<close> is live, \<open>uthread_get_quantums tid\<close> returns 0.
\<close>

theorem unscheduled_thread_quantums:
  assumes "run_library N ss q es = Some s"
    and "uthread_spawn s = Return tid s1" and "tid \<noteq> FAILURE"
    and "run_avoiding tid s1 es' = Some s2"
    and "contains (threadsCollectionManager s2) tid"
  shows "\<exists>s3. uthread_get_quantums tid s2 = Return 0 s3"
proof -
  let ?m = "threadsCollectionManager s"
  from assms(1) have wf: "wf_state s" by (rule wf_run_library)
  from assms(2,3) have ne: "available_ids ?m \<noteq> {}" and tid: "tid = Min (available_ids ?m)"
    by (auto simp: uthread_spawn_def create_thread_def Let_def split: if_splits)
  from wf have w: "wf_manager ?m" by (simp add: wf_state_def)
  then have "finite (available_ids ?m)" and "\<forall>i \<in> available_ids ?m. i \<notin> live ?m"
    unfolding wf_manager_def by blast+
  with ne tid have "tid \<notin> live ?m" by simp
  with wf_state_live(2) [OF wf] have c: "curr_thread_id ?m \<noteq> tid" by auto
  from assms(2) have wf1: "wf_state s1" using wf_uthread_spawn [OF wf, of tid s1] by simp
  from assms(2) ne tid have u1: "unscheduled tid s1"
    and c1: "curr_thread_id (threadsCollectionManager s1) \<noteq> tid"
    using c by (auto simp: uthread_spawn_def create_thread_def Let_def unscheduled_def
        Thread_ctor_def)
  from wf1 u1 c1 assms(4) have "unscheduled tid s2" by (rule unscheduled_run_avoiding)
  with assms(5) show ?thesis
    by (simp add: unscheduled_def uthread_get_quantums_def Let_def int_of_size_t_def)
qed


theorem unscheduled_thread_quantums_witness:
  "run_library 4 4096 100000 [] = Some started
   \<and> uthread_spawn started = Return 1 one_spawned
   \<and> (\<exists>s2. run_avoiding 1 one_spawned [Call (Block 1), Tick, Call Spawn, Call (Resume 1)] = Some s2
         \<and> contains (threadsCollectionManager s2) 1
         \<and> (\<exists>s3. uthread_get_quantums 1 s2 = Return 0 s3))"
proof -
  have sp: "uthread_spawn started = Return 1 one_spawned"
    by (simp add: exec_defs started_def one_spawned_def del: dom_threads case_threads)
  have "map_option (\<lambda>s. contains (threadsCollectionManager s) 1)
      (run_avoiding 1 one_spawned [Call (Block 1), Tick, Call Spawn, Call (Resume 1)]) = Some True"
    by (simp add: exec_defs started_def one_spawned_def del: dom_threads case_threads)
  then obtain s2 where
    r: "run_avoiding 1 one_spawned [Call (Block 1), Tick, Call Spawn, Call (Resume 1)] = Some s2"
    and c: "contains (threadsCollectionManager s2) 1"
    by auto
  have "(1::int) \<noteq> FAILURE" by simp
  from unscheduled_thread_quantums [OF run_started sp this r c] run_started sp r c
  show ?thesis by blast
qed

text \<open>
  The same holds in the executions in which the timer also fires inside (other calls
  of) \<open>uthread_spawn\<close>, from any state whatever, as long as the thread that calls
  \<open>uthread_spawn\<close> is not itself \<open>tid\<close>; and it holds from the statement of
  \<open>create_thread\<close> on that stores the record, when the call that creates \<open>tid\<close> is
  itself interrupted.
\<close>

lemma fresh_thread_quantums_fine:
  assumes "uthread_spawn s = Return tid s1" and "tid \<noteq> FAILURE"
    and "curr_thread_id (threadsCollectionManager s) \<noteq> tid"
    and "fine_run_avoiding tid (s1, UserCode) es = Some (s2, a)"
    and "contains (threadsCollectionManager s2) tid"
  shows "\<exists>s3. uthread_get_quantums tid s2 = Return 0 s3"
proof -
  from assms(1,2,3) have u1: "unscheduled tid s1"
    and c1: "curr_thread_id (threadsCollectionManager s1) \<noteq> tid"
    by (auto simp: uthread_spawn_def create_thread_def Let_def unscheduled_def
        Thread_ctor_def split: if_splits)
  from u1 c1 assms(4) have "unscheduled tid s2" by (rule unscheduled_fine_run_avoiding)
  with assms(5) show ?thesis
    by (simp add: unscheduled_def uthread_get_quantums_def Let_def int_of_size_t_def)
qed

lemma fresh_thread_quantums_pieces:
  assumes "spawn_step (CreateThread (AtStore tid)) s = Some (s1, a1)"
    and "curr_thread_id (threadsCollectionManager s) \<noteq> tid"
    and "fine_run_avoiding tid (s1, a1) es = Some (s2, a)"
    and "contains (threadsCollectionManager s2) tid"
  shows "\<exists>s3. uthread_get_quantums tid s2 = Return 0 s3"
proof -
  from assms(1,2) have u1: "unscheduled tid s1"
    and c1: "curr_thread_id (threadsCollectionManager s1) \<noteq> tid"
    by (auto simp: spawn_step_def create_thread_statement_def unscheduled_def
        Thread_ctor_def split: if_splits)
  from u1 c1 assms(3) have "unscheduled tid s2" by (rule unscheduled_fine_run_avoiding)
  with assms(4) show ?thesis
    by (simp add: unscheduled_def uthread_get_quantums_def Let_def int_of_size_t_def)
qed

end
